theory Spec2Isabelle
  imports Main "HOL-Library.Multiset"
begin

section \<open>Data model of codegraph.py\<close>

text \<open>
  The dataclasses \<open>Node\<close>, \<open>Edge\<close> and \<open>Bridge\<close> and the container \<open>CodeGraph\<close>.
  Python dictionaries keep insertion order, and that order is visible in the output, so a
  dictionary is an association list with distinct keys in insertion order. A
  \<open>defaultdict(list)\<close> is such a list whose missing keys read as the empty list.
  Strings are ASCII strings.
\<close>

record node =
  node_id :: string
  node_file :: string
  node_name :: string
  node_type :: string
  node_language :: string
  node_line :: int
  node_metadata :: "(string \<times> string) list"

record edge =
  source :: string
  target :: string
  edge_type :: string
  edge_file :: string
  edge_line :: int
  edge_metadata :: "(string \<times> string) list"

text \<open>One element of \<open>Bridge.producers\<close> or \<open>Bridge.consumers\<close>: the dictionary
  \<open>{file, line, language, action}\<close>.\<close>

record entry =
  ent_file :: string
  ent_line :: int
  ent_language :: string
  ent_action :: string

record bridge =
  bridge_type :: string
  bridge_key :: string
  producers :: "entry list"
  consumers :: "entry list"

record codegraph =
  nodes :: "(string \<times> node) list"
  edges :: "edge list"
  bridges :: "bridge list"
  adjacency :: "(string \<times> edge list) list"
  reverse_adj :: "(string \<times> edge list) list"

definition empty_graph :: codegraph where
  "empty_graph = \<lparr>nodes = [], edges = [], bridges = [], adjacency = [], reverse_adj = []\<rparr>"

subsection \<open>Dictionaries\<close>

text \<open>\<open>d.get(k, [])\<close> on a \<open>defaultdict(list)\<close>: reading does not insert the key.\<close>

definition dd_get :: "('k \<times> 'v list) list \<Rightarrow> 'k \<Rightarrow> 'v list" where
  "dd_get d k = (case map_of d k of None \<Rightarrow> [] | Some vs \<Rightarrow> vs)"

text \<open>\<open>d[k].append(x)\<close> on a \<open>defaultdict(list)\<close>: a missing key is inserted at the end.\<close>

fun dd_append :: "('k \<times> 'v list) list \<Rightarrow> 'k \<Rightarrow> 'v \<Rightarrow> ('k \<times> 'v list) list" where
  "dd_append [] k x = [(k, [x])]"
| "dd_append ((k', vs) # d) k x =
     (if k' = k then (k', vs @ [x]) # d else (k', vs) # dd_append d k x)"

subsection \<open>Graph operations\<close>

text \<open>\<open>CodeGraph.add_node\<close>: \<open>if node.id not in self.nodes: self.nodes[node.id] = node\<close>.\<close>

definition add_node :: "node \<Rightarrow> codegraph \<Rightarrow> codegraph" where
  "add_node n g =
     (if node_id n \<notin> fst ` set (nodes g) then g\<lparr>nodes := nodes g @ [(node_id n, n)]\<rparr> else g)"

text \<open>\<open>CodeGraph.add_edge\<close>: appended to the edge list and to both adjacency indexes.\<close>

definition add_edge :: "edge \<Rightarrow> codegraph \<Rightarrow> codegraph" where
  "add_edge e g =
     g\<lparr>edges := edges g @ [e],
       adjacency := dd_append (adjacency g) (source e) e,
       reverse_adj := dd_append (reverse_adj g) (target e) e\<rparr>"

definition add_bridge :: "bridge \<Rightarrow> codegraph \<Rightarrow> codegraph" where
  "add_bridge b g = g\<lparr>bridges := bridges g @ [b]\<rparr>"

text \<open>\<open>CodeGraph.get_node\<close>, also every \<open>graph.nodes.get(k)\<close>.\<close>

definition get_node :: "codegraph \<Rightarrow> string \<Rightarrow> node option" where
  "get_node g k = map_of (nodes g) k"

section \<open>Strings\<close>

text \<open>\<open>s.startswith(p)\<close> and \<open>s.endswith(p)\<close>.\<close>

definition startswith :: "string \<Rightarrow> string \<Rightarrow> bool" where
  "startswith s p = (take (length p) s = p)"

definition endswith :: "string \<Rightarrow> string \<Rightarrow> bool" where
  "endswith s p = (length p \<le> length s \<and> drop (length s - length p) s = p)"

text \<open>\<open>s.split(sep)\<close> for a non-empty separator: always at least one part.\<close>

fun str_split :: "string \<Rightarrow> string \<Rightarrow> string list" where
  "str_split sep [] = [[]]"
| "str_split sep (c # cs) =
     (if sep \<noteq> [] \<and> startswith (c # cs) sep
      then [] # str_split sep (drop (length sep) (c # cs))
      else (let r = str_split sep cs in (c # hd r) # tl r))"

text \<open>\<open>s.replace(old, new)\<close> for a non-empty \<open>old\<close>: every occurrence, left to right.\<close>

fun str_replace :: "string \<Rightarrow> string \<Rightarrow> string \<Rightarrow> string" where
  "str_replace old new [] = []"
| "str_replace old new (c # cs) =
     (if old \<noteq> [] \<and> startswith (c # cs) old
      then new @ str_replace old new (drop (length old) (c # cs))
      else c # str_replace old new cs)"

section \<open>MQTT wildcard matching\<close>

text \<open>
  The loop \<open>for i, pp in enumerate(pat_parts)\<close> of \<open>mqtt_topic_matches\<close>: the first
  argument is the part of \<open>pat_parts\<close> still to visit, \<open>i\<close> the index of its head. The
  result \<open>None\<close> is a loop that ran to its end without returning.
\<close>

fun mqtt_loop :: "string list \<Rightarrow> nat \<Rightarrow> string list \<Rightarrow> bool option" where
  "mqtt_loop [] i top_parts = None"
| "mqtt_loop (pp # rest) i top_parts =
     (if pp = ''#'' then Some True
      else if i \<ge> length top_parts then Some False
      else if pp = ''+'' then mqtt_loop rest (Suc i) top_parts
      else if pp \<noteq> top_parts ! i then Some False
      else mqtt_loop rest (Suc i) top_parts)"

definition mqtt_topic_matches :: "string \<Rightarrow> string \<Rightarrow> bool" where
  "mqtt_topic_matches pattern topic =
     (if pattern = topic then True
      else (let pat_parts = str_split ''/'' pattern;
                top_parts = str_split ''/'' topic
            in case mqtt_loop pat_parts 0 top_parts of
                 Some r \<Rightarrow> r
               | None \<Rightarrow> length pat_parts = length top_parts))"

text \<open>
  The matching rule in the words of the specification, on the two segment lists: a
  \<open>#\<close> segment matches everything that remains, a \<open>+\<close> segment exactly one topic
  segment, any other segment only itself, and without \<open>#\<close> both lists end together.
\<close>

fun segments_match :: "string list \<Rightarrow> string list \<Rightarrow> bool" where
  "segments_match [] ts = (ts = [])"
| "segments_match (p # ps) ts =
     (if p = ''#'' then True
      else (case ts of
              [] \<Rightarrow> False
            | t # ts' \<Rightarrow> (p = ''+'' \<or> p = t) \<and> segments_match ps ts'))"

section \<open>Subgraph extraction\<close>

text \<open>\<open>sub in s\<close> on strings.\<close>

fun contains :: "string \<Rightarrow> string \<Rightarrow> bool" where
  "contains [] sub = (sub = [])"
| "contains (c # cs) sub = (startswith (c # cs) sub \<or> contains cs sub)"

text \<open>
  The disambiguation block of \<open>CodeGraph.subgraph\<close>: the value of \<open>start_id\<close> after
  \<open>if start_id not in self.nodes: ...\<close>.
\<close>

definition resolve_start :: "codegraph \<Rightarrow> string \<Rightarrow> string" where
  "resolve_start g start_id =
     (if start_id \<in> fst ` set (nodes g) then start_id
      else (let matches = filter (\<lambda>nid. contains nid start_id) (map fst (nodes g))
            in if length matches = 1 then hd matches
               else if length matches > 1 then
                 (let exact = filter (\<lambda>m. endswith m start_id \<or>
                                           last (str_split '':'' m) = start_id) matches
                  in if exact \<noteq> [] then hd exact else hd matches)
               else start_id))"

text \<open>
  The bodies of the two edge loops inside the \<open>while\<close> loop, on the pair of the subgraph
  under construction and the queue: \<open>sub.add_edge(edge)\<close>, then the other endpoint is
  enqueued at \<open>depth + 1\<close> unless it is visited.
\<close>

definition visit_forward ::
  "string set \<Rightarrow> int \<Rightarrow> edge \<Rightarrow> codegraph \<times> (string \<times> int) list
     \<Rightarrow> codegraph \<times> (string \<times> int) list" where
  "visit_forward visited depth e sq =
     (add_edge e (fst sq),
      if target e \<notin> visited then snd sq @ [(target e, depth + 1)] else snd sq)"

definition visit_backward ::
  "string set \<Rightarrow> int \<Rightarrow> edge \<Rightarrow> codegraph \<times> (string \<times> int) list
     \<Rightarrow> codegraph \<times> (string \<times> int) list" where
  "visit_backward visited depth e sq =
     (add_edge e (fst sq),
      if source e \<notin> visited then snd sq @ [(source e, depth + 1)] else snd sq)"

text \<open>One visit of the \<open>while\<close> loop, after \<open>visited.add(current)\<close>.\<close>

definition visit ::
  "codegraph \<Rightarrow> string \<Rightarrow> int \<Rightarrow> string set \<Rightarrow> codegraph \<Rightarrow> (string \<times> int) list
     \<Rightarrow> codegraph \<times> (string \<times> int) list" where
  "visit g current depth visited sub queue =
     (let sub1 = (case get_node g current of Some n \<Rightarrow> add_node n sub | None \<Rightarrow> sub);
          sq2 = fold (visit_forward visited depth) (dd_get (adjacency g) current) (sub1, queue)
      in fold (visit_backward visited depth) (dd_get (reverse_adj g) current) sq2)"

text \<open>
  The loop terminates: a visited item of depth at most \<open>max_depth\<close> is replaced by items
  of the next depth, so the multiset of the distances to \<open>max_depth + 1\<close> decreases.
\<close>

definition weight :: "int \<Rightarrow> string \<times> int \<Rightarrow> nat" where
  "weight D item = nat (D + 1 - snd item)"

lemma fold_visit_forward_queue:
  "\<exists>new. snd (fold (visit_forward visited depth) es sq) = snd sq @ new \<and>
         (\<forall>x\<in>set new. snd x = depth + 1)"
proof (induction es arbitrary: sq)
  case Nil
  then show ?case by simp
next
  case (Cons e es)
  obtain new where n:
    "snd (fold (visit_forward visited depth) es (visit_forward visited depth e sq))
       = snd (visit_forward visited depth e sq) @ new"
    "\<forall>x\<in>set new. snd x = depth + 1"
    using Cons.IH by blast
  show ?case
  proof (cases "target e \<notin> visited")
    case True
    then have "visit_forward visited depth e sq =
        (add_edge e (fst sq), snd sq @ [(target e, depth + 1)])"
      by (simp add: visit_forward_def)
    with n show ?thesis
      by (intro exI[of _ "(target e, depth + 1) # new"]) simp
  next
    case False
    then have "visit_forward visited depth e sq = (add_edge e (fst sq), snd sq)"
      by (simp add: visit_forward_def)
    with n show ?thesis
      by (intro exI[of _ new]) simp
  qed
qed

lemma fold_visit_backward_queue:
  "\<exists>new. snd (fold (visit_backward visited depth) es sq) = snd sq @ new \<and>
         (\<forall>x\<in>set new. snd x = depth + 1)"
proof (induction es arbitrary: sq)
  case Nil
  then show ?case by simp
next
  case (Cons e es)
  obtain new where n:
    "snd (fold (visit_backward visited depth) es (visit_backward visited depth e sq))
       = snd (visit_backward visited depth e sq) @ new"
    "\<forall>x\<in>set new. snd x = depth + 1"
    using Cons.IH by blast
  show ?case
  proof (cases "source e \<notin> visited")
    case True
    then have "visit_backward visited depth e sq =
        (add_edge e (fst sq), snd sq @ [(source e, depth + 1)])"
      by (simp add: visit_backward_def)
    with n show ?thesis
      by (intro exI[of _ "(source e, depth + 1) # new"]) simp
  next
    case False
    then have "visit_backward visited depth e sq = (add_edge e (fst sq), snd sq)"
      by (simp add: visit_backward_def)
    with n show ?thesis
      by (intro exI[of _ new]) simp
  qed
qed

lemma visit_queue:
  "\<exists>new. snd (visit g current depth visited sub queue) = queue @ new \<and>
         (\<forall>x\<in>set new. snd x = depth + 1)"
proof -
  define sub1 where
    "sub1 = (case get_node g current of Some n \<Rightarrow> add_node n sub | None \<Rightarrow> sub)"
  define sq2 where
    "sq2 = fold (visit_forward visited depth) (dd_get (adjacency g) current) (sub1, queue)"
  obtain n1 where n1: "snd sq2 = queue @ n1" "\<forall>x\<in>set n1. snd x = depth + 1"
    using fold_visit_forward_queue
      [of visited depth "dd_get (adjacency g) current" "(sub1, queue)"]
    by (auto simp: sq2_def)
  obtain n2 where n2:
    "snd (fold (visit_backward visited depth) (dd_get (reverse_adj g) current) sq2)
       = snd sq2 @ n2"
    "\<forall>x\<in>set n2. snd x = depth + 1"
    using fold_visit_backward_queue by blast
  have "snd (visit g current depth visited sub queue) = queue @ (n1 @ n2)"
    using n1 n2 by (simp add: visit_def sub1_def sq2_def Let_def)
  moreover have "\<forall>x\<in>set (n1 @ n2). snd x = depth + 1"
    using n1 n2 by auto
  ultimately show ?thesis by blast
qed

lemma queue_decreases:
  assumes "\<not> depth > D" and "\<forall>x\<in>set new. snd x = depth + 1"
  shows "(mset (map (weight D) (queue @ new)),
          mset (map (weight D) ((current, depth) # queue))) \<in> mult {(x, y). x < y}"
proof -
  have "(mset (map (weight D) queue) + mset (map (weight D) new),
         mset (map (weight D) queue) + {#weight D (current, depth)#})
          \<in> mult {(x, y). x < y}"
  proof (rule one_step_implies_mult)
    show "{#weight D (current, depth)#} \<noteq> {#}" by simp
    show "\<forall>k\<in>#mset (map (weight D) new).
            \<exists>j\<in>#{#weight D (current, depth)#}. (k, j) \<in> {(x, y). x < y}"
      using assms by (auto simp: weight_def)
  qed
  then show ?thesis by (simp add: ac_simps)
qed

text \<open>The \<open>while queue:\<close> loop of \<open>CodeGraph.subgraph\<close>.\<close>

function bfs_loop ::
  "codegraph \<Rightarrow> int \<Rightarrow> (string \<times> int) list \<Rightarrow> string set \<Rightarrow> codegraph \<Rightarrow> codegraph" where
  "bfs_loop g max_depth [] visited sub = sub"
| "bfs_loop g max_depth ((current, depth) # queue) visited sub =
     (if current \<in> visited \<or> depth > max_depth then bfs_loop g max_depth queue visited sub
      else (let sq = visit g current depth (insert current visited) sub queue
            in bfs_loop g max_depth (snd sq) (insert current visited) (fst sq)))"
  by pat_completeness auto
termination
proof (relation "inv_image (mult {(x, y). x < y})
                   (\<lambda>(g, D, queue, visited, sub). mset (map (weight D) queue))")
  show "wf (inv_image (mult {(x, y). x < y})
             (\<lambda>(g, D, queue, visited, sub). mset (map (weight D) queue)))"
    by (intro wf_inv_image wf_mult) (simp add: wf_less)
next
  fix g max_depth current depth queue visited sub
  have "(mset (map (weight max_depth) queue) + {#},
         mset (map (weight max_depth) queue) + {#weight max_depth (current, depth)#})
          \<in> mult {(x, y). x < y}"
    by (rule one_step_implies_mult) simp_all
  then show "((g, max_depth, queue, visited, sub),
              (g, max_depth, (current, depth) # queue, visited, sub))
      \<in> inv_image (mult {(x, y). x < y})
           (\<lambda>(g, D, queue, visited, sub). mset (map (weight D) queue))"
    by (simp add: ac_simps)
next
  fix g :: codegraph and max_depth current depth queue visited sub sq
  assume a: "\<not> (current \<in> visited \<or> max_depth < depth)"
    and sq: "sq = visit g current depth (insert current visited) sub queue"
  obtain new where n: "snd sq = queue @ new" "\<forall>x\<in>set new. snd x = depth + 1"
    using visit_queue sq by blast
  from a have "\<not> depth > max_depth" by simp
  from queue_decreases[OF this n(2)] n(1)
  show "((g, max_depth, snd sq, insert current visited, fst sq),
         (g, max_depth, (current, depth) # queue, visited, sub))
      \<in> inv_image (mult {(x, y). x < y})
           (\<lambda>(g, D, queue, visited, sub). mset (map (weight D) queue))"
    by simp
qed

text \<open>
  \<open>CodeGraph.subgraph\<close>. The queue is built from the \<open>start_id\<close> passed in, before the
  disambiguation block rebinds \<open>start_id\<close>; the rebound value is not read again. The sets
  \<open>sub_files\<close> and \<open>bridge_files\<close> are only tested for a common element.
\<close>

definition subgraph :: "codegraph \<Rightarrow> string \<Rightarrow> int \<Rightarrow> codegraph" where
  "subgraph g start_id max_depth =
     (let queue = [(start_id, 0)];
          start_id = resolve_start g start_id;
          sub = bfs_loop g max_depth queue {} empty_graph;
          sub_files = filter (\<lambda>f. f \<noteq> []) (map (\<lambda>kn. node_file (snd kn)) (nodes sub))
      in fold (\<lambda>b s. if set (map ent_file (producers b @ consumers b)) \<inter> set sub_files \<noteq> {}
                       then add_bridge b s else s)
           (bridges g) sub)"

text \<open>The chain \<open>file:a.js\<close>, \<open>file:b.js\<close>, \<open>file:c.js\<close> of imports, built in the order
  in which the JavaScript extractor adds the nodes and edges of the three files.\<close>

definition file_node :: "string \<Rightarrow> string \<Rightarrow> string \<Rightarrow> node" where
  "file_node relp name lang =
     \<lparr>node_id = ''file:'' @ relp, node_file = relp, node_name = name,
      node_type = ''file'', node_language = lang, node_line = 0, node_metadata = []\<rparr>"

definition import_edge :: "string \<Rightarrow> string \<Rightarrow> string \<Rightarrow> edge" where
  "import_edge src tgt raw =
     \<lparr>source = ''file:'' @ src, target = ''file:'' @ tgt, edge_type = ''imports'',
      edge_file = src, edge_line = 1, edge_metadata = [(''raw'', raw)]\<rparr>"

definition chain_graph :: codegraph where
  "chain_graph =
     add_node (file_node ''c.js'' ''c.js'' ''js'')
       (add_edge (import_edge ''b.js'' ''c.js'' ''./c.js'')
         (add_node (file_node ''b.js'' ''b.js'' ''js'')
           (add_edge (import_edge ''a.js'' ''b.js'' ''./b.js'')
             (add_node (file_node ''a.js'' ''a.js'' ''js'') empty_graph))))"

section \<open>HTTP path normalization\<close>

text \<open>
  A character of a model string is a code point below 256, the range of the type. On
  that range the tables below are those of Python: \<open>str.lower()\<close> moves the 26 ASCII
  capitals and the 30 capitals from \<open>0xC0\<close> to \<open>0xDE\<close> (\<open>0xD7\<close>, the multiplication sign, is
  no letter) to the letter 32 places further, and the class \<open>\w\<close> of a \<open>str\<close> pattern holds
  the ASCII letters, the digits, the underscore, the letters from \<open>0xC0\<close> to \<open>0xFF\<close> other
  than \<open>0xD7\<close> and \<open>0xF7\<close>, and the nine code points of \<open>latin1_other\<close> (ordinal
  indicators, superscript digits, the micro sign and the fractions).
\<close>

definition upper_letters :: string where
  "upper_letters = ''ABCDEFGHIJKLMNOPQRSTUVWXYZ''"

definition lower_letters :: string where
  "lower_letters = ''abcdefghijklmnopqrstuvwxyz''"

definition latin1_upper :: string where
  "latin1_upper =
     [CHR 0xC0, CHR 0xC1, CHR 0xC2, CHR 0xC3, CHR 0xC4, CHR 0xC5, CHR 0xC6, CHR 0xC7,
      CHR 0xC8, CHR 0xC9, CHR 0xCA, CHR 0xCB, CHR 0xCC, CHR 0xCD, CHR 0xCE, CHR 0xCF,
      CHR 0xD0, CHR 0xD1, CHR 0xD2, CHR 0xD3, CHR 0xD4, CHR 0xD5, CHR 0xD6,
      CHR 0xD8, CHR 0xD9, CHR 0xDA, CHR 0xDB, CHR 0xDC, CHR 0xDD, CHR 0xDE]"

definition latin1_lower :: string where
  "latin1_lower =
     [CHR 0xE0, CHR 0xE1, CHR 0xE2, CHR 0xE3, CHR 0xE4, CHR 0xE5, CHR 0xE6, CHR 0xE7,
      CHR 0xE8, CHR 0xE9, CHR 0xEA, CHR 0xEB, CHR 0xEC, CHR 0xED, CHR 0xEE, CHR 0xEF,
      CHR 0xF0, CHR 0xF1, CHR 0xF2, CHR 0xF3, CHR 0xF4, CHR 0xF5, CHR 0xF6,
      CHR 0xF8, CHR 0xF9, CHR 0xFA, CHR 0xFB, CHR 0xFC, CHR 0xFD, CHR 0xFE]"

definition latin1_other :: string where
  "latin1_other =
     [CHR 0xAA, CHR 0xB2, CHR 0xB3, CHR 0xB5, CHR 0xB9, CHR 0xBA, CHR 0xBC, CHR 0xBD, CHR 0xBE,
      CHR 0xDF, CHR 0xFF]"

definition is_word_char :: "char \<Rightarrow> bool" where
  "is_word_char c =
     (c \<in> set (lower_letters @ upper_letters @ ''0123456789_''
               @ latin1_upper @ latin1_lower @ latin1_other))"

text \<open>
  \<open>str.lower()\<close> and \<open>str.upper()\<close>. \<open>upper\<close> is applied to the method name that a route or
  call pattern captures, a word of ASCII letters; of the three letters whose capital is
  not one code point below 256 (\<open>0xB5\<close>, \<open>0xDF\<close>, \<open>0xFF\<close>) it makes no statement and leaves
  them as they are.
\<close>

definition lower_char :: "char \<Rightarrow> char" where
  "lower_char c =
     (case map_of (zip (upper_letters @ latin1_upper) (lower_letters @ latin1_lower)) c of
        Some d \<Rightarrow> d | None \<Rightarrow> c)"

definition upper_char :: "char \<Rightarrow> char" where
  "upper_char c =
     (case map_of (zip (lower_letters @ latin1_lower) (upper_letters @ latin1_upper)) c of
        Some d \<Rightarrow> d | None \<Rightarrow> c)"

definition lower :: "string \<Rightarrow> string" where
  "lower s = map lower_char s"

definition upper :: "string \<Rightarrow> string" where
  "upper s = map upper_char s"

text \<open>\<open>re.sub(r':(\w+)', '{param}', path)\<close>: a colon followed by at least one word
  character is replaced together with the longest run of word characters after it.\<close>

function sub_colon :: "string \<Rightarrow> string" where
  "sub_colon [] = []"
| "sub_colon (c # cs) =
     (if c = CHR '':'' \<and> cs \<noteq> [] \<and> is_word_char (hd cs)
      then ''{param}'' @ sub_colon (dropWhile is_word_char cs)
      else c # sub_colon cs)"
  by pat_completeness auto
termination
  by (relation "measure length") (auto simp: le_imp_less_Suc length_dropWhile_le)

text \<open>
  A match of \<open>\{[^}]+\}\<close> at the head of a string: an opening brace, at least one
  character other than the closing brace, and the closing brace. The result is what
  follows the match.
\<close>

definition brace_group :: "string \<Rightarrow> string option" where
  "brace_group s =
     (case s of
        [] \<Rightarrow> None
      | c # rest \<Rightarrow>
          if c = CHR ''{'' \<and> takeWhile (\<lambda>x. x \<noteq> CHR ''}'') rest \<noteq> []
               \<and> dropWhile (\<lambda>x. x \<noteq> CHR ''}'') rest \<noteq> []
          then Some (tl (dropWhile (\<lambda>x. x \<noteq> CHR ''}'') rest))
          else None)"

lemma brace_group_shorter: "brace_group s = Some r \<Longrightarrow> length r < length s"
proof (cases s)
  case Nil
  then show "brace_group s = Some r \<Longrightarrow> length r < length s"
    by (simp add: brace_group_def)
next
  case (Cons c rest)
  have "length (tl (dropWhile (\<lambda>x. x \<noteq> CHR ''}'') rest)) \<le> length rest"
    using length_dropWhile_le[of "\<lambda>x. x \<noteq> CHR ''}''" rest] by simp
  with Cons show "brace_group s = Some r \<Longrightarrow> length r < length s"
    by (auto simp: brace_group_def split: if_splits)
qed

text \<open>\<open>re.sub(r'\$\{[^}]+\}', '{param}', path)\<close>.\<close>

function sub_dollar :: "string \<Rightarrow> string" where
  "sub_dollar [] = []"
| "sub_dollar (c # cs) =
     (if c = CHR ''$'' then
        (case brace_group cs of
           Some rest \<Rightarrow> ''{param}'' @ sub_dollar rest
         | None \<Rightarrow> c # sub_dollar cs)
      else c # sub_dollar cs)"
  by pat_completeness auto
termination
  by (relation "measure length") (auto dest: brace_group_shorter)

text \<open>\<open>re.sub(r'\{[^}]+\}', '{param}', path)\<close>.\<close>

function sub_brace :: "string \<Rightarrow> string" where
  "sub_brace [] = []"
| "sub_brace (c # cs) =
     (case brace_group (c # cs) of
        Some rest \<Rightarrow> ''{param}'' @ sub_brace rest
      | None \<Rightarrow> c # sub_brace cs)"
  by pat_completeness auto
termination
  by (relation "measure length") (auto dest: brace_group_shorter)

text \<open>\<open>s.rstrip('/')\<close>: every trailing slash is removed.\<close>

definition rstrip_slash :: "string \<Rightarrow> string" where
  "rstrip_slash s = rev (dropWhile (\<lambda>c. c = CHR ''/'') (rev s))"

definition normalize_http_path :: "string \<Rightarrow> string" where
  "normalize_http_path path = lower (rstrip_slash (sub_brace (sub_dollar (sub_colon path))))"

section \<open>Cross-language bridge detection\<close>

text \<open>
  \<open>detect_bridges\<close> walks over four Python sets of strings (\<open>set(list(a.keys()) +
  list(b.keys()))\<close>). The order in which a set of strings is walked is not fixed by the
  language: it follows the hashes of the strings, which CPython salts per process. The
  order is a parameter \<open>iter\<close>, which maps the list a set is built from to the order of
  the walk; \<open>set_iter_ok\<close> is all that the language promises about it.
\<close>

definition set_iter_ok :: "(string list \<Rightarrow> string list) \<Rightarrow> bool" where
  "set_iter_ok iter = (\<forall>xs. distinct (iter xs) \<and> set (iter xs) = set xs)"

type_synonym table = "(string \<times> entry list) list"

definition mk_entry :: "string \<Rightarrow> int \<Rightarrow> string \<Rightarrow> string \<Rightarrow> entry" where
  "mk_entry f l lang act = \<lparr>ent_file = f, ent_line = l, ent_language = lang, ent_action = act\<rparr>"

text \<open>\<open>node = graph.nodes.get(k); lang = node.language if node else "unknown"\<close>.\<close>

definition lang_of :: "codegraph \<Rightarrow> string \<Rightarrow> string" where
  "lang_of g k = (case get_node g k of Some n \<Rightarrow> node_language n | None \<Rightarrow> ''unknown'')"

text \<open>\<open>node.file if node else edge.target\<close> for \<open>node = graph.nodes.get(edge.target)\<close>.\<close>

definition file_of_target :: "codegraph \<Rightarrow> edge \<Rightarrow> string" where
  "file_of_target g e = (case get_node g (target e) of Some n \<Rightarrow> node_file n | None \<Rightarrow> target e)"

subsection \<open>MQTT\<close>

text \<open>The body of the first loop over \<open>graph.edges\<close>, on the pair
  \<open>(mqtt_producers, mqtt_consumers)\<close>.\<close>

definition mqtt_step :: "codegraph \<Rightarrow> edge \<Rightarrow> table \<times> table \<Rightarrow> table \<times> table" where
  "mqtt_step g e pc =
     (if edge_type e = ''publishes'' then
        (dd_append (fst pc) (str_replace ''mqtt:'' '''' (target e))
           (mk_entry (edge_file e) (edge_line e) (lang_of g (''file:'' @ edge_file e)) ''publish''),
         snd pc)
      else if edge_type e = ''subscribes'' then
        (case get_node g (source e) of
           None \<Rightarrow> pc
         | Some node_source \<Rightarrow>
             if node_type node_source = ''topic'' then
               (fst pc,
                dd_append (snd pc) (str_replace ''mqtt:'' '''' (source e))
                  (mk_entry (file_of_target g e) (edge_line e) (lang_of g (target e))
                     ''subscribe''))
             else pc)
      else pc)"

definition mqtt_tables :: "codegraph \<Rightarrow> table \<times> table" where
  "mqtt_tables g = fold (mqtt_step g) (edges g) ([], [])"

text \<open>The consumers of a topic: its own, then those of every other subscribed key that
  matches it, in the insertion order of \<open>mqtt_consumers\<close>.\<close>

definition mqtt_cons :: "table \<Rightarrow> string \<Rightarrow> entry list" where
  "mqtt_cons mqtt_consumers topic =
     fold (\<lambda>kv cons. if fst kv \<noteq> topic \<and> mqtt_topic_matches (fst kv) topic
                      then cons @ snd kv else cons)
       mqtt_consumers (dd_get mqtt_consumers topic)"

definition mqtt_emit :: "table \<Rightarrow> table \<Rightarrow> string \<Rightarrow> codegraph \<Rightarrow> codegraph" where
  "mqtt_emit mqtt_producers mqtt_consumers topic g =
     (let prods = dd_get mqtt_producers topic;
          cons = mqtt_cons mqtt_consumers topic
      in if prods \<noteq> [] \<or> cons \<noteq> [] then
           (if card (set (map ent_file prods) \<union> set (map ent_file cons)) > 1
               \<or> card (set (map ent_language prods) \<union> set (map ent_language cons)) > 1
            then add_bridge \<lparr>bridge_type = ''mqtt'', bridge_key = topic,
                             producers = prods, consumers = cons\<rparr> g
            else g)
         else g)"

definition mqtt_section :: "(string list \<Rightarrow> string list) \<Rightarrow> codegraph \<Rightarrow> codegraph" where
  "mqtt_section iter g =
     (let t = mqtt_tables g
      in fold (mqtt_emit (fst t) (snd t)) (iter (map fst (fst t) @ map fst (snd t))) g)"

subsection \<open>HTTP\<close>

text \<open>\<open>s.split(sep, maxsplit)\<close> for a non-empty separator.\<close>

fun str_split_max :: "string \<Rightarrow> nat \<Rightarrow> string \<Rightarrow> string list" where
  "str_split_max sep 0 s = [s]"
| "str_split_max sep (Suc n) [] = [[]]"
| "str_split_max sep (Suc n) (c # cs) =
     (if sep \<noteq> [] \<and> startswith (c # cs) sep
      then [] # str_split_max sep n (drop (length sep) (c # cs))
      else (let r = str_split_max sep (Suc n) cs in (c # hd r) # tl r))"

text \<open>\<open>edge.metadata.get("path", edge.target.split(":", 2)[-1] if ":" in edge.target
  else edge.target)\<close>.\<close>

definition fetch_path :: "edge \<Rightarrow> string" where
  "fetch_path e =
     (case map_of (edge_metadata e) ''path'' of
        Some p \<Rightarrow> p
      | None \<Rightarrow> if CHR '':'' \<in> set (target e)
                then last (str_split_max '':'' 2 (target e)) else target e)"

definition http_step :: "codegraph \<Rightarrow> edge \<Rightarrow> table \<times> table \<Rightarrow> table \<times> table" where
  "http_step g e dc =
     (if edge_type e = ''defines'' then
        (case get_node g (target e) of
           None \<Rightarrow> dc
         | Some tgt \<Rightarrow>
             if node_type tgt = ''endpoint'' then
               (let path = (case map_of (node_metadata tgt) ''path'' of
                              Some p \<Rightarrow> p | None \<Rightarrow> target e)
                in (dd_append (fst dc) (normalize_http_path path)
                      (mk_entry (edge_file e) (edge_line e)
                         (lang_of g (''file:'' @ edge_file e)) (''defines '' @ node_name tgt)),
                    snd dc))
             else dc)
      else if edge_type e = ''fetches'' then
        (let path = fetch_path e
         in (fst dc,
             dd_append (snd dc) (normalize_http_path path)
               (mk_entry (edge_file e) (edge_line e)
                  (lang_of g (''file:'' @ edge_file e)) (''calls '' @ path))))
      else dc)"

definition http_tables :: "codegraph \<Rightarrow> table \<times> table" where
  "http_tables g = fold (http_step g) (edges g) ([], [])"

definition http_emit :: "table \<Rightarrow> table \<Rightarrow> string \<Rightarrow> codegraph \<Rightarrow> codegraph" where
  "http_emit http_definers http_callers path g =
     (let defs = dd_get http_definers path;
          calls = dd_get http_callers path
      in if defs \<noteq> [] \<and> calls \<noteq> [] then
           add_bridge \<lparr>bridge_type = ''http'', bridge_key = path,
                       producers = defs, consumers = calls\<rparr> g
         else if calls \<noteq> [] \<and> \<not> defs \<noteq> [] then
           add_bridge \<lparr>bridge_type = ''http'', bridge_key = ''UNMATCHED:'' @ path,
                       producers = [], consumers = calls\<rparr> g
         else g)"

definition http_section :: "(string list \<Rightarrow> string list) \<Rightarrow> codegraph \<Rightarrow> codegraph" where
  "http_section iter g =
     (let t = http_tables g
      in fold (http_emit (fst t) (snd t)) (iter (map fst (fst t) @ map fst (snd t))) g)"

subsection \<open>WebSocket\<close>

definition ws_step :: "codegraph \<Rightarrow> edge \<Rightarrow> table \<times> table \<Rightarrow> table \<times> table" where
  "ws_step g e el =
     (if edge_type e = ''emits'' then
        (dd_append (fst el) (str_replace ''ws:'' '''' (target e))
           (mk_entry (edge_file e) (edge_line e) (lang_of g (''file:'' @ edge_file e)) ''emits''),
         snd el)
      else if edge_type e = ''subscribes'' then
        (case get_node g (source e) of
           None \<Rightarrow> el
         | Some source_node \<Rightarrow>
             if node_type source_node = ''event'' \<and> startswith (node_id source_node) ''ws:'' then
               (fst el,
                dd_append (snd el) (str_replace ''ws:'' '''' (source e))
                  (mk_entry (file_of_target g e) (edge_line e) (lang_of g (target e))
                     ''listens''))
             else el)
      else el)"

definition ws_tables :: "codegraph \<Rightarrow> table \<times> table" where
  "ws_tables g = fold (ws_step g) (edges g) ([], [])"

definition ws_emit :: "table \<Rightarrow> table \<Rightarrow> string \<Rightarrow> codegraph \<Rightarrow> codegraph" where
  "ws_emit ws_emitters ws_listeners event g =
     (let emits = dd_get ws_emitters event;
          listens = dd_get ws_listeners event
      in if card (set (map ent_file emits) \<union> set (map ent_file listens)) > 1 then
           add_bridge \<lparr>bridge_type = ''websocket'', bridge_key = event,
                       producers = emits, consumers = listens\<rparr> g
         else g)"

definition ws_section :: "(string list \<Rightarrow> string list) \<Rightarrow> codegraph \<Rightarrow> codegraph" where
  "ws_section iter g =
     (let t = ws_tables g
      in fold (ws_emit (fst t) (snd t)) (iter (map fst (fst t) @ map fst (snd t))) g)"

subsection \<open>Serial\<close>

definition serial_step ::
  "codegraph \<Rightarrow> edge \<Rightarrow> entry list \<times> entry list \<Rightarrow> entry list \<times> entry list" where
  "serial_step g e wr =
     (if edge_type e = ''serial_write'' then
        (fst wr @ [mk_entry (edge_file e) (edge_line e)
                     (lang_of g (''file:'' @ edge_file e)) ''write''], snd wr)
      else if edge_type e = ''serial_read'' then
        (fst wr, snd wr @ [mk_entry (edge_file e) (edge_line e)
                             (lang_of g (''file:'' @ edge_file e)) ''read''])
      else wr)"

definition serial_section :: "codegraph \<Rightarrow> codegraph" where
  "serial_section g =
     (let wr = fold (serial_step g) (edges g) ([], [])
      in if fst wr \<noteq> [] \<and> snd wr \<noteq> [] then
           add_bridge \<lparr>bridge_type = ''serial'', bridge_key = ''serial'',
                       producers = fst wr, consumers = snd wr\<rparr> g
         else g)"

subsection \<open>Environment variables\<close>

definition env_step :: "codegraph \<Rightarrow> edge \<Rightarrow> table \<times> table \<Rightarrow> table \<times> table" where
  "env_step g e du =
     (if edge_type e = ''env_defines'' then
        (dd_append (fst du) (str_replace ''env:'' '''' (target e))
           (mk_entry (edge_file e) (edge_line e) ''config'' ''defines''),
         snd du)
      else if edge_type e = ''env_uses'' then
        (fst du,
         dd_append (snd du) (str_replace ''env:'' '''' (target e))
           (mk_entry (edge_file e) (edge_line e) (lang_of g (''file:'' @ edge_file e)) ''uses''))
      else du)"

definition env_tables :: "codegraph \<Rightarrow> table \<times> table" where
  "env_tables g = fold (env_step g) (edges g) ([], [])"

definition env_emit :: "table \<Rightarrow> table \<Rightarrow> string \<Rightarrow> codegraph \<Rightarrow> codegraph" where
  "env_emit env_definers env_users var g =
     (let defs = dd_get env_definers var;
          uses = dd_get env_users var
      in if uses \<noteq> [] \<and> \<not> defs \<noteq> [] then
           add_bridge \<lparr>bridge_type = ''env'', bridge_key = ''UNDEFINED:'' @ var,
                       producers = [], consumers = uses\<rparr> g
         else if defs \<noteq> [] \<and> uses \<noteq> [] then
           (if card (set (map ent_file defs) \<union> set (map ent_file uses)) > 1 then
              add_bridge \<lparr>bridge_type = ''env'', bridge_key = var,
                          producers = defs, consumers = uses\<rparr> g
            else g)
         else g)"

definition env_section :: "(string list \<Rightarrow> string list) \<Rightarrow> codegraph \<Rightarrow> codegraph" where
  "env_section iter g =
     (let t = env_tables g
      in fold (env_emit (fst t) (snd t)) (iter (map fst (fst t) @ map fst (snd t))) g)"

text \<open>\<open>detect_bridges\<close>: the five sections in the order of the source.\<close>

definition detect_bridges :: "(string list \<Rightarrow> string list) \<Rightarrow> codegraph \<Rightarrow> codegraph" where
  "detect_bridges iter g =
     env_section iter (serial_section (ws_section iter (http_section iter (mqtt_section iter g))))"

text \<open>\<open>stats()['languages']\<close>: \<open>list({n.language for n in self.nodes.values()})\<close>.\<close>

definition stats_languages :: "(string list \<Rightarrow> string list) \<Rightarrow> codegraph \<Rightarrow> string list" where
  "stats_languages iter g = iter (map (\<lambda>kn. node_language (snd kn)) (nodes g))"

text \<open>\<open>stats()['files']\<close>: \<open>len({n.file for n in self.nodes.values() if n.file})\<close>.\<close>

definition stats_files :: "codegraph \<Rightarrow> nat" where
  "stats_files g = card (set (filter (\<lambda>f. f \<noteq> []) (map (\<lambda>kn. node_file (snd kn)) (nodes g))))"

section \<open>Library functions the extractors call\<close>

text \<open>
  The extractors match each line against regular expressions of the module \<open>re\<close>. The
  expressions are named here after their place in the source, and the matcher is a
  parameter: \<open>re_finditer pat line\<close> is the list of matches of \<open>re.finditer\<close> (also of
  \<open>re.findall\<close>, which returns the same groups), each match given by its groups 1 and 2
  (the empty string for a group the expression does not have), and \<open>re_match pat s\<close> is
  the result of \<open>re.match\<close>. The flag \<open>re.IGNORECASE\<close> belongs to the expression.
  \<open>os.path.normpath\<close> and \<open>json.loads\<close> are parameters as well.
\<close>

datatype pattern =
    JS_IMPORT_FROM | JS_IMPORT_BARE | JS_REQUIRE | JS_IMPORT_DYN
  | JS_EXPORT_DECL | JS_EXPORT_LIST | JS_ROUTE
  | JS_FETCH | JS_AXIOS | JS_API
  | JS_WS_EMIT | JS_WS_ON | JS_MQTT_PUB | JS_MQTT_SUB
  | JS_ENV_DOT | JS_ENV_INDEX | JS_ENV_META
  | PY_FROM_IMPORT | PY_IMPORT | PY_DEF | PY_CLASS
  | PY_MQTT_PUB | PY_MQTT_SUB | PY_MQTT_CALLBACK
  | PY_SERIAL_READ | PY_SERIAL_WRITE
  | PY_REQUESTS | PY_REQUESTS_F | PY_ROUTE
  | PY_ENVIRON | PY_GETENV
  | CPP_INCLUDE | CPP_FUNC | CPP_MQTT_PUB | CPP_MQTT_SUB
  | CPP_SERIAL_OUT | CPP_SERIAL_IN | CPP_HTTP_BEGIN
  | ENV_ASSIGN

text \<open>
  What \<open>parse_config_files\<close> can observe of \<open>json.loads(content)\<close>. \<open>json.loads\<close> raises
  \<open>JSONDecodeError\<close> or another exception, or returns a value \<open>pkg\<close>. When \<open>pkg\<close> is not
  a dictionary, \<open>pkg.get\<close> raises \<open>AttributeError\<close>. Otherwise the loop
  \<open>for dep_name in pkg.get(dep_type, {})\<close> raises \<open>TypeError\<close> when the value cannot be
  iterated, or visits elements, each given by the text an f-string makes of it; and
  \<open>pkg.get('scripts', {}).items()\<close> raises \<open>AttributeError\<close> when the value is not a
  dictionary, or yields the pairs of a script name and the text of its command.
\<close>

datatype iter_outcome = NotIterable | Elements "string list"

datatype items_outcome = NoItems | Items "(string \<times> string) list"

datatype pkg_value =
    NotADict
  | PkgDict (pkg_dependencies: iter_outcome) (pkg_devDependencies: iter_outcome)
      (pkg_scripts: items_outcome)

datatype json_outcome = JSONDecodeError | JsonOtherError | JsonValue pkg_value

record pylib =
  re_finditer :: "pattern \<Rightarrow> string \<Rightarrow> (string \<times> string) list"
  re_match :: "pattern \<Rightarrow> string \<Rightarrow> (string \<times> string) option"
  os_normpath :: "string \<Rightarrow> string"
  json_loads :: "string \<Rightarrow> json_outcome"

datatype error = OSError | AttributeError | TypeError | OtherError

subsection \<open>Lines and paths\<close>

text \<open>The line boundaries of \<open>str.splitlines\<close> and the white space of \<open>str.strip\<close>
  among the code points below 256.\<close>

definition is_linebreak :: "char \<Rightarrow> bool" where
  "is_linebreak c =
     (c \<in> {CHR 0x0A, CHR 0x0B, CHR 0x0C, CHR 0x0D, CHR 0x1C, CHR 0x1D, CHR 0x1E, CHR 0x85})"

definition is_space :: "char \<Rightarrow> bool" where
  "is_space c = (c \<in> {CHR 0x20, CHR 0x09, CHR 0x0A, CHR 0x0B, CHR 0x0C, CHR 0x0D,
                      CHR 0x1C, CHR 0x1D, CHR 0x1E, CHR 0x1F, CHR 0x85, CHR 0xA0})"

function splitlines_from :: "string \<Rightarrow> string \<Rightarrow> string list" where
  "splitlines_from cur [] = (if cur = [] then [] else [cur])"
| "splitlines_from cur (c # cs) =
     (if is_linebreak c then
        cur # splitlines_from [] (if c = CHR 0x0D \<and> take 1 cs = [CHR 0x0A] then tl cs else cs)
      else splitlines_from (cur @ [c]) cs)"
  by pat_completeness auto
termination
  by (relation "measure (\<lambda>p. length (snd p))") auto

definition splitlines :: "string \<Rightarrow> string list" where
  "splitlines content = splitlines_from [] content"

definition strip :: "string \<Rightarrow> string" where
  "strip s = rev (dropWhile is_space (rev (dropWhile is_space s)))"

text \<open>\<open>enumerate(xs, 1)\<close>.\<close>

fun enumerate_from :: "int \<Rightarrow> 'a list \<Rightarrow> (int \<times> 'a) list" where
  "enumerate_from i [] = []"
| "enumerate_from i (x # xs) = (i, x) # enumerate_from (i + 1) xs"

text \<open>\<open>sep.join(parts)\<close>.\<close>

fun str_join :: "string \<Rightarrow> string list \<Rightarrow> string" where
  "str_join sep [] = []"
| "str_join sep [p] = p"
| "str_join sep (p # q # ps) = p @ sep @ str_join sep (q # ps)"

text \<open>
  A discovered file is the list of the names from the project root down to the file.
  \<open>rel_path\<close> is \<open>str(fpath.relative_to(root))\<close>, \<open>path_name\<close> is \<open>fpath.name\<close> and
  \<open>path_suffix\<close> is \<open>fpath.suffix\<close>: the name from its last dot on, when that dot is
  neither the first nor the last character.
\<close>

type_synonym path = "string list"

definition rel_path :: "path \<Rightarrow> string" where
  "rel_path fpath = str_join ''/'' fpath"

definition path_name :: "path \<Rightarrow> string" where
  "path_name fpath = (if fpath = [] then [] else last fpath)"

definition suffix_of_name :: "string \<Rightarrow> string" where
  "suffix_of_name name =
     (if CHR ''.'' \<notin> set name then []
      else (let ext = rev (takeWhile (\<lambda>c. c \<noteq> CHR ''.'') (rev name))
            in if 0 < length name - length ext - 1 \<and> ext \<noteq> [] then CHR ''.'' # ext else []))"

definition path_suffix :: "path \<Rightarrow> string" where
  "path_suffix fpath = suffix_of_name (path_name fpath)"

text \<open>\<open>str(Path(p).parent)\<close> for a relative path without empty components, and
  \<open>os.path.join\<close> of two components.\<close>

definition path_parent :: "string \<Rightarrow> string" where
  "path_parent p =
     (let parts = str_split ''/'' p
      in if length parts \<le> 1 then ''.'' else str_join ''/'' (butlast parts))"

definition path_join :: "string \<Rightarrow> string \<Rightarrow> string" where
  "path_join a b =
     (if startswith b ''/'' then b
      else if a = [] \<or> endswith a ''/'' then a @ b
      else a @ ''/'' @ b)"

definition backslashes_to_slashes :: "string \<Rightarrow> string" where
  "backslashes_to_slashes s = str_replace [CHR 0x5C] ''/'' s"

section \<open>Import resolution\<close>

definition resolve_js_import :: "pylib \<Rightarrow> string \<Rightarrow> string \<Rightarrow> string" where
  "resolve_js_import lib source_file import_path =
     (if \<not> startswith import_path ''.'' then
        (let pkg = hd (str_split ''/'' import_path);
             pkg = (if startswith import_path ''@''
                    then str_join ''/'' (take 2 (str_split ''/'' import_path)) else pkg)
         in ''__pkg__/'' @ pkg)
      else backslashes_to_slashes
             (os_normpath lib (path_join (path_parent source_file) import_path)))"

definition resolve_python_import :: "pylib \<Rightarrow> string \<Rightarrow> string \<Rightarrow> string" where
  "resolve_python_import lib source_file module =
     (if startswith module ''.'' then
        (let source_dir = path_parent source_file;
             stripped = dropWhile (\<lambda>c. c = CHR ''.'') module;
             parts = str_split ''.'' stripped;
             levels = length module - length stripped;
             base = (path_parent ^^ (levels - 1)) source_dir
         in backslashes_to_slashes (os_normpath lib (fold (\<lambda>p b. path_join b p) parts base)))
      else str_join ''/'' (str_split ''.'' module))"

definition resolve_cpp_include :: "pylib \<Rightarrow> string \<Rightarrow> string \<Rightarrow> string" where
  "resolve_cpp_include lib source_file header =
     backslashes_to_slashes (os_normpath lib (path_join (path_parent source_file) header))"

section \<open>Language extractors\<close>

definition mk_node ::
  "string \<Rightarrow> string \<Rightarrow> string \<Rightarrow> string \<Rightarrow> string \<Rightarrow> int \<Rightarrow> (string \<times> string) list \<Rightarrow> node" where
  "mk_node i f n t l ln md =
     \<lparr>node_id = i, node_file = f, node_name = n, node_type = t, node_language = l,
      node_line = ln, node_metadata = md\<rparr>"

definition mk_edge ::
  "string \<Rightarrow> string \<Rightarrow> string \<Rightarrow> string \<Rightarrow> int \<Rightarrow> (string \<times> string) list \<Rightarrow> edge" where
  "mk_edge s t ty f ln md =
     \<lparr>source = s, target = t, edge_type = ty, edge_file = f, edge_line = ln,
      edge_metadata = md\<rparr>"

text \<open>The node that every extractor adds first.\<close>

definition add_file_node :: "path \<Rightarrow> string \<Rightarrow> string \<Rightarrow> codegraph \<Rightarrow> codegraph" where
  "add_file_node fpath relp lang g =
     add_node (mk_node (''file:'' @ relp) relp (path_name fpath) ''file'' lang 0 []) g"

text \<open>\<open>if not stripped or stripped.startswith(prefix): continue\<close>.\<close>

definition skip_line :: "string \<Rightarrow> string \<Rightarrow> bool" where
  "skip_line prefix line = (strip line = [] \<or> startswith (strip line) prefix)"

text \<open>The loop over the numbered lines of a file, with the body of the extractor.\<close>

definition for_lines ::
  "string \<Rightarrow> string \<Rightarrow> (int \<Rightarrow> string \<Rightarrow> codegraph \<Rightarrow> codegraph) \<Rightarrow> codegraph \<Rightarrow> codegraph" where
  "for_lines prefix content body g =
     fold (\<lambda>nl g. if skip_line prefix (snd nl) then g else body (fst nl) (snd nl) g)
       (enumerate_from 1 (splitlines content)) g"

subsection \<open>Publish and subscribe, shared by the three languages\<close>

text \<open>A topic or event node and the edge from the file to it: MQTT publish and
  WebSocket emit. The node carries the line number.\<close>

definition emit_out ::
  "string \<Rightarrow> string \<Rightarrow> string \<Rightarrow> string \<Rightarrow> string \<Rightarrow> int \<Rightarrow> string \<Rightarrow> codegraph \<Rightarrow> codegraph" where
  "emit_out prefix ntype etype lang relp line_num name g =
     add_edge (mk_edge (''file:'' @ relp) (prefix @ name) etype relp line_num [])
       (add_node (mk_node (prefix @ name) relp (prefix @ name) ntype lang line_num []) g)"

text \<open>A topic or event node and the edge from it to the file: MQTT subscribe and
  WebSocket listen. The node carries no line number.\<close>

definition emit_in ::
  "string \<Rightarrow> string \<Rightarrow> string \<Rightarrow> string \<Rightarrow> string \<Rightarrow> int \<Rightarrow> string \<Rightarrow> codegraph \<Rightarrow> codegraph" where
  "emit_in prefix ntype etype lang relp line_num name g =
     add_edge (mk_edge (prefix @ name) (''file:'' @ relp) etype relp line_num [])
       (add_node (mk_node (prefix @ name) relp (prefix @ name) ntype lang 0 []) g)"

text \<open>An environment variable read in a source line.\<close>

definition env_use :: "string \<Rightarrow> int \<Rightarrow> string \<Rightarrow> codegraph \<Rightarrow> codegraph" where
  "env_use relp line_num var g =
     add_edge (mk_edge (''file:'' @ relp) (''env:'' @ var) ''env_uses'' relp line_num [])
       (add_node (mk_node (''env:'' @ var) relp var ''variable'' ''config'' 0 []) g)"

definition env_uses_of ::
  "pylib \<Rightarrow> pattern list \<Rightarrow> string \<Rightarrow> int \<Rightarrow> string \<Rightarrow> codegraph \<Rightarrow> codegraph" where
  "env_uses_of lib pats relp line_num line g =
     fold (\<lambda>pat. fold (\<lambda>m. env_use relp line_num (fst m)) (re_finditer lib pat line)) pats g"

subsection \<open>JavaScript and TypeScript\<close>

definition js_imports :: "pylib \<Rightarrow> string \<Rightarrow> int \<Rightarrow> string \<Rightarrow> codegraph \<Rightarrow> codegraph" where
  "js_imports lib relp line_num line g =
     fold (\<lambda>pat. fold (\<lambda>m. add_edge
                   (mk_edge (''file:'' @ relp)
                      (''file:'' @ resolve_js_import lib relp (fst m))
                      ''imports'' relp line_num [(''raw'', fst m)]))
                 (re_finditer lib pat line))
       [JS_IMPORT_FROM, JS_IMPORT_BARE, JS_REQUIRE, JS_IMPORT_DYN] g"

text \<open>\<open>[n.strip().split(' as ')[0].strip() for n in m.group(1).split(',')]\<close>.\<close>

definition export_names :: "string \<Rightarrow> string list" where
  "export_names group1 = map (\<lambda>n. strip (hd (str_split '' as '' (strip n)))) (str_split '','' group1)"

definition js_export :: "string \<Rightarrow> string \<Rightarrow> int \<Rightarrow> string \<Rightarrow> codegraph \<Rightarrow> codegraph" where
  "js_export lang relp line_num name g =
     (if name \<noteq> [] then
        add_edge (mk_edge (''file:'' @ relp) (''export:'' @ relp @ '':'' @ name) ''exports''
                    relp line_num [])
          (add_node (mk_node (''export:'' @ relp @ '':'' @ name) relp name ''function'' lang
                       line_num []) g)
      else g)"

definition js_exports ::
  "pylib \<Rightarrow> string \<Rightarrow> string \<Rightarrow> int \<Rightarrow> string \<Rightarrow> codegraph \<Rightarrow> codegraph" where
  "js_exports lib lang relp line_num line g =
     fold (\<lambda>pat. fold (\<lambda>m. fold (js_export lang relp line_num) (export_names (fst m)))
                 (re_finditer lib pat line))
       [JS_EXPORT_DECL, JS_EXPORT_LIST] g"

definition js_route :: "string \<Rightarrow> string \<Rightarrow> int \<Rightarrow> string \<times> string \<Rightarrow> codegraph \<Rightarrow> codegraph" where
  "js_route lang relp line_num m g =
     (let method = upper (fst m); path = snd m;
          endpoint_id = ''http:'' @ method @ '':'' @ path
      in add_edge (mk_edge (''file:'' @ relp) endpoint_id ''defines'' relp line_num [])
           (add_node (mk_node endpoint_id relp (method @ '' '' @ path) ''endpoint'' lang
                        line_num [(''method'', method), (''path'', path)]) g))"

definition js_routes ::
  "pylib \<Rightarrow> string \<Rightarrow> string \<Rightarrow> int \<Rightarrow> string \<Rightarrow> codegraph \<Rightarrow> codegraph" where
  "js_routes lib lang relp line_num line g =
     fold (js_route lang relp line_num) (re_finditer lib JS_ROUTE line) g"

definition js_api_call ::
  "string option \<Rightarrow> string \<Rightarrow> int \<Rightarrow> string \<times> string \<Rightarrow> codegraph \<Rightarrow> codegraph" where
  "js_api_call default_method relp line_num m g =
     (let path = (case default_method of Some d \<Rightarrow> fst m | None \<Rightarrow> snd m);
          method = (case default_method of Some d \<Rightarrow> d | None \<Rightarrow> upper (fst m))
      in add_edge (mk_edge (''file:'' @ relp) (''http:'' @ method @ '':'' @ path) ''fetches''
                     relp line_num [(''method'', method), (''path'', path)]) g)"

definition js_api_calls :: "pylib \<Rightarrow> string \<Rightarrow> int \<Rightarrow> string \<Rightarrow> codegraph \<Rightarrow> codegraph" where
  "js_api_calls lib relp line_num line g =
     fold (\<lambda>pd. fold (js_api_call (snd pd) relp line_num) (re_finditer lib (fst pd) line))
       [(JS_FETCH, Some ''GET''), (JS_AXIOS, None), (JS_API, None)] g"

definition js_line ::
  "pylib \<Rightarrow> string \<Rightarrow> string \<Rightarrow> int \<Rightarrow> string \<Rightarrow> codegraph \<Rightarrow> codegraph" where
  "js_line lib lang relp line_num line g =
     env_uses_of lib [JS_ENV_DOT, JS_ENV_INDEX, JS_ENV_META] relp line_num line
    (fold (\<lambda>m. emit_in ''mqtt:'' ''topic'' ''subscribes'' lang relp line_num (fst m))
       (re_finditer lib JS_MQTT_SUB line)
    (fold (\<lambda>m. emit_out ''mqtt:'' ''topic'' ''publishes'' lang relp line_num (fst m))
       (re_finditer lib JS_MQTT_PUB line)
    (fold (\<lambda>m. emit_in ''ws:'' ''event'' ''subscribes'' lang relp line_num (fst m))
       (re_finditer lib JS_WS_ON line)
    (fold (\<lambda>m. emit_out ''ws:'' ''event'' ''emits'' lang relp line_num (fst m))
       (re_finditer lib JS_WS_EMIT line)
    (js_api_calls lib relp line_num line
    (js_routes lib lang relp line_num line
    (js_exports lib lang relp line_num line
    (js_imports lib relp line_num line g))))))))"

definition parse_javascript :: "pylib \<Rightarrow> path \<Rightarrow> string \<Rightarrow> string \<Rightarrow> codegraph \<Rightarrow> codegraph" where
  "parse_javascript lib fpath content relp g =
     (let lang = (if path_suffix fpath \<in> {''.ts'', ''.tsx''} then ''ts'' else ''js'')
      in for_lines ''//'' content (js_line lib lang relp) (add_file_node fpath relp lang g))"

subsection \<open>Python\<close>

definition py_imports :: "pylib \<Rightarrow> string \<Rightarrow> int \<Rightarrow> string \<Rightarrow> codegraph \<Rightarrow> codegraph" where
  "py_imports lib relp line_num line g =
     fold (\<lambda>pat g. case re_match lib pat (strip line) of
                     None \<Rightarrow> g
                   | Some m \<Rightarrow>
                       add_edge (mk_edge (''file:'' @ relp)
                                   (''file:'' @ resolve_python_import lib relp (fst m))
                                   ''imports'' relp line_num [(''module'', fst m)]) g)
       [PY_FROM_IMPORT, PY_IMPORT] g"

text \<open>A function or class definition: Python \<open>def\<close> and \<open>class\<close>, and C++ functions.\<close>

definition definition_of ::
  "string \<Rightarrow> string \<Rightarrow> string \<Rightarrow> string \<Rightarrow> int \<Rightarrow> string \<Rightarrow> codegraph \<Rightarrow> codegraph" where
  "definition_of prefix ntype lang relp line_num name g =
     add_edge (mk_edge (''file:'' @ relp) (prefix @ relp @ '':'' @ name) ''defines''
                 relp line_num [])
       (add_node (mk_node (prefix @ relp @ '':'' @ name) relp name ntype lang line_num []) g)"

definition py_definitions :: "pylib \<Rightarrow> string \<Rightarrow> int \<Rightarrow> string \<Rightarrow> codegraph \<Rightarrow> codegraph" where
  "py_definitions lib relp line_num line g =
     (let g1 = (case re_match lib PY_DEF (strip line) of
                  None \<Rightarrow> g
                | Some m \<Rightarrow> definition_of ''func:'' ''function'' ''python'' relp line_num (fst m) g)
      in case re_match lib PY_CLASS (strip line) of
           None \<Rightarrow> g1
         | Some m \<Rightarrow> definition_of ''class:'' ''class'' ''python'' relp line_num (fst m) g1)"

text \<open>The serial connection: read from it, written to it.\<close>

definition serial_read :: "string \<Rightarrow> string \<Rightarrow> int \<Rightarrow> codegraph \<Rightarrow> codegraph" where
  "serial_read lang relp line_num g =
     add_edge (mk_edge ''serial:connection'' (''file:'' @ relp) ''serial_read'' relp line_num [])
       (add_node (mk_node ''serial:connection'' relp ''serial'' ''event'' lang 0 []) g)"

definition serial_write :: "string \<Rightarrow> string \<Rightarrow> int \<Rightarrow> codegraph \<Rightarrow> codegraph" where
  "serial_write lang relp line_num g =
     add_edge (mk_edge (''file:'' @ relp) ''serial:connection'' ''serial_write'' relp line_num [])
       (add_node (mk_node ''serial:connection'' relp ''serial'' ''event'' lang 0 []) g)"

definition py_serial :: "pylib \<Rightarrow> string \<Rightarrow> int \<Rightarrow> string \<Rightarrow> codegraph \<Rightarrow> codegraph" where
  "py_serial lib relp line_num line g =
     (let g1 = (if re_finditer lib PY_SERIAL_READ line \<noteq> []
                then serial_read ''python'' relp line_num g else g)
      in if re_finditer lib PY_SERIAL_WRITE line \<noteq> []
         then serial_write ''python'' relp line_num g1 else g1)"

definition py_http_calls :: "pylib \<Rightarrow> string \<Rightarrow> int \<Rightarrow> string \<Rightarrow> codegraph \<Rightarrow> codegraph" where
  "py_http_calls lib relp line_num line g =
     fold (\<lambda>pat. fold (\<lambda>m. add_edge
                   (mk_edge (''file:'' @ relp) (''http:'' @ upper (fst m) @ '':'' @ snd m)
                      ''fetches'' relp line_num []))
                 (re_finditer lib pat line))
       [PY_REQUESTS, PY_REQUESTS_F] g"

definition py_route :: "string \<Rightarrow> int \<Rightarrow> string \<times> string \<Rightarrow> codegraph \<Rightarrow> codegraph" where
  "py_route relp line_num m g =
     (let path = fst m; method = ''GET''; endpoint_id = ''http:'' @ method @ '':'' @ path
      in add_edge (mk_edge (''file:'' @ relp) endpoint_id ''defines'' relp line_num [])
           (add_node (mk_node endpoint_id relp (method @ '' '' @ path) ''endpoint'' ''python''
                        line_num []) g))"

definition py_routes :: "pylib \<Rightarrow> string \<Rightarrow> int \<Rightarrow> string \<Rightarrow> codegraph \<Rightarrow> codegraph" where
  "py_routes lib relp line_num line g =
     fold (\<lambda>pat. fold (py_route relp line_num) (re_finditer lib pat line)) [PY_ROUTE] g"

definition py_line :: "pylib \<Rightarrow> string \<Rightarrow> int \<Rightarrow> string \<Rightarrow> codegraph \<Rightarrow> codegraph" where
  "py_line lib relp line_num line g =
     env_uses_of lib [PY_ENVIRON, PY_GETENV] relp line_num line
    (py_routes lib relp line_num line
    (py_http_calls lib relp line_num line
    (py_serial lib relp line_num line
    (fold (\<lambda>m. emit_in ''mqtt:'' ''topic'' ''subscribes'' ''python'' relp line_num (fst m))
       (re_finditer lib PY_MQTT_CALLBACK line)
    (fold (\<lambda>m. emit_in ''mqtt:'' ''topic'' ''subscribes'' ''python'' relp line_num (fst m))
       (re_finditer lib PY_MQTT_SUB line)
    (fold (\<lambda>m. emit_out ''mqtt:'' ''topic'' ''publishes'' ''python'' relp line_num (fst m))
       (re_finditer lib PY_MQTT_PUB line)
    (py_definitions lib relp line_num line
    (py_imports lib relp line_num line g))))))))"

definition parse_python :: "pylib \<Rightarrow> path \<Rightarrow> string \<Rightarrow> string \<Rightarrow> codegraph \<Rightarrow> codegraph" where
  "parse_python lib fpath content relp g =
     for_lines ''#'' content (py_line lib relp) (add_file_node fpath relp ''python'' g)"

subsection \<open>C, C++ and Arduino\<close>

definition cpp_include :: "pylib \<Rightarrow> string \<Rightarrow> int \<Rightarrow> string \<Rightarrow> codegraph \<Rightarrow> codegraph" where
  "cpp_include lib relp line_num line g =
     (case re_match lib CPP_INCLUDE (strip line) of
        None \<Rightarrow> g
      | Some m \<Rightarrow>
          if CHR 0x22 \<in> set line then
            add_edge (mk_edge (''file:'' @ relp)
                        (''file:'' @ resolve_cpp_include lib relp (fst m))
                        ''includes'' relp line_num []) g
          else
            add_edge (mk_edge (''file:'' @ relp) (''lib:'' @ fst m) ''includes'' relp line_num [])
              (add_node (mk_node (''lib:'' @ fst m) [] (fst m) ''file'' ''cpp'' 0 []) g))"

definition cpp_function ::
  "pylib \<Rightarrow> string \<Rightarrow> string \<Rightarrow> int \<Rightarrow> string \<Rightarrow> codegraph \<Rightarrow> codegraph" where
  "cpp_function lib lang relp line_num line g =
     (case re_match lib CPP_FUNC (strip line) of
        None \<Rightarrow> g
      | Some m \<Rightarrow>
          if fst m \<notin> {''if'', ''while'', ''for'', ''switch'', ''return''}
          then definition_of ''func:'' ''function'' lang relp line_num (fst m) g
          else g)"

definition cpp_serial ::
  "pylib \<Rightarrow> string \<Rightarrow> string \<Rightarrow> int \<Rightarrow> string \<Rightarrow> codegraph \<Rightarrow> codegraph" where
  "cpp_serial lib lang relp line_num line g =
     (let g1 = (if re_finditer lib CPP_SERIAL_OUT line \<noteq> []
                then serial_write lang relp line_num g else g)
      in if re_finditer lib CPP_SERIAL_IN line \<noteq> []
         then serial_read lang relp line_num g1 else g1)"

definition cpp_http :: "pylib \<Rightarrow> string \<Rightarrow> int \<Rightarrow> string \<Rightarrow> codegraph \<Rightarrow> codegraph" where
  "cpp_http lib relp line_num line g =
     fold (\<lambda>m. add_edge (mk_edge (''file:'' @ relp) (''http:GET:'' @ fst m) ''fetches''
                          relp line_num []))
       (re_finditer lib CPP_HTTP_BEGIN line) g"

definition cpp_line ::
  "pylib \<Rightarrow> string \<Rightarrow> string \<Rightarrow> int \<Rightarrow> string \<Rightarrow> codegraph \<Rightarrow> codegraph" where
  "cpp_line lib lang relp line_num line g =
     cpp_http lib relp line_num line
    (cpp_serial lib lang relp line_num line
    (fold (\<lambda>m. emit_in ''mqtt:'' ''topic'' ''subscribes'' lang relp line_num (fst m))
       (re_finditer lib CPP_MQTT_SUB line)
    (fold (\<lambda>m. emit_out ''mqtt:'' ''topic'' ''publishes'' lang relp line_num (fst m))
       (re_finditer lib CPP_MQTT_PUB line)
    (cpp_function lib lang relp line_num line
    (cpp_include lib relp line_num line g)))))"

definition parse_cpp_arduino :: "pylib \<Rightarrow> path \<Rightarrow> string \<Rightarrow> string \<Rightarrow> codegraph \<Rightarrow> codegraph" where
  "parse_cpp_arduino lib fpath content relp g =
     (let lang = (if path_suffix fpath = ''.ino'' then ''arduino'' else ''cpp'')
      in for_lines ''//'' content (cpp_line lib lang relp) (add_file_node fpath relp lang g))"

subsection \<open>Environment files and package.json\<close>

definition env_line :: "pylib \<Rightarrow> string \<Rightarrow> int \<Rightarrow> string \<Rightarrow> codegraph \<Rightarrow> codegraph" where
  "env_line lib relp line_num line g =
     (case re_match lib ENV_ASSIGN (strip line) of
        None \<Rightarrow> g
      | Some m \<Rightarrow>
          add_edge (mk_edge (''file:'' @ relp) (''env:'' @ fst m) ''env_defines'' relp line_num [])
            (add_node (mk_node (''env:'' @ fst m) relp (fst m) ''variable'' ''config''
                         line_num []) g))"

definition parse_env_file :: "pylib \<Rightarrow> path \<Rightarrow> string \<Rightarrow> string \<Rightarrow> codegraph \<Rightarrow> codegraph" where
  "parse_env_file lib fpath content relp g =
     for_lines ''#'' content (env_line lib relp) (add_file_node fpath relp ''config'' g)"

definition pkg_dependency :: "string \<Rightarrow> string \<Rightarrow> string \<Rightarrow> codegraph \<Rightarrow> codegraph" where
  "pkg_dependency relp dep_type dep_name g =
     add_edge (mk_edge (''file:'' @ relp) (''pkg:'' @ dep_name) ''imports'' relp 0
                 [(''type'', dep_type)])
       (add_node (mk_node (''pkg:'' @ dep_name) [] dep_name ''file'' ''config'' 0 []) g)"

definition pkg_dependencies ::
  "string \<Rightarrow> string \<Rightarrow> iter_outcome \<Rightarrow> codegraph \<Rightarrow> error + codegraph" where
  "pkg_dependencies relp dep_type deps g =
     (case deps of
        NotIterable \<Rightarrow> Inl TypeError
      | Elements names \<Rightarrow> Inr (fold (pkg_dependency relp dep_type) names g))"

definition pkg_script :: "string \<Rightarrow> string \<times> string \<Rightarrow> codegraph \<Rightarrow> codegraph" where
  "pkg_script relp sc g =
     add_node (mk_node (''script:'' @ relp @ '':'' @ fst sc) relp (''npm:'' @ fst sc)
                 ''function'' ''config'' 0 [(''command'', snd sc)]) g"

text \<open>
  \<open>parse_config_files\<close>. Only \<open>json.JSONDecodeError\<close> is caught; any other exception
  leaves the function, and the result is then the exception.
\<close>

definition parse_config_files ::
  "pylib \<Rightarrow> path \<Rightarrow> string \<Rightarrow> string \<Rightarrow> codegraph \<Rightarrow> error + codegraph" where
  "parse_config_files lib fpath content relp g =
     (let g0 = add_file_node fpath relp ''config'' g
      in if path_name fpath = ''package.json'' then
           (case json_loads lib content of
              JSONDecodeError \<Rightarrow> Inr g0
            | JsonOtherError \<Rightarrow> Inl OtherError
            | JsonValue NotADict \<Rightarrow> Inl AttributeError
            | JsonValue (PkgDict deps dev scripts) \<Rightarrow>
                (case pkg_dependencies relp ''dependencies'' deps g0 of
                   Inl e \<Rightarrow> Inl e
                 | Inr g1 \<Rightarrow>
                     (case pkg_dependencies relp ''devDependencies'' dev g1 of
                        Inl e \<Rightarrow> Inl e
                      | Inr g2 \<Rightarrow>
                          (case scripts of
                             NoItems \<Rightarrow> Inl AttributeError
                           | Items scs \<Rightarrow> Inr (fold (pkg_script relp) scs g2)))))
         else Inr g0)"

section \<open>File discovery and reading\<close>

text \<open>
  What \<open>Path.read_text(encoding=enc)\<close> does for one encoding: it returns the text, or
  raises \<open>UnicodeDecodeError\<close> or \<open>ValueError\<close>, or raises another exception (an
  \<open>OSError\<close> such as \<open>PermissionError\<close>). A file is its name and these outcomes; a
  directory is its name and its entries in the order \<open>os.walk\<close> lists them.
\<close>

datatype encoding = UTF8 | Latin1 | ASCII

datatype read_outcome = Text string | DecodeFailure | OSFailure

datatype fs_entry = File string "encoding \<Rightarrow> read_outcome" | Dir string "fs_entry list"

definition SKIP_DIRS :: "string set" where
  "SKIP_DIRS = {''node_modules'', ''.git'', ''dist'', ''build'', ''.next'', ''__pycache__'',
     ''venv'', ''.venv'', ''coverage'', ''.nyc_output'', ''vendor'', ''.pio'',
     ''.platformio'', ''managed_components'', ''.code-review''}"

definition LANGUAGE_MAP :: "(string \<times> string) list" where
  "LANGUAGE_MAP =
     [(''.js'', ''js''), (''.jsx'', ''js''), (''.mjs'', ''js''), (''.cjs'', ''js''),
      (''.ts'', ''ts''), (''.tsx'', ''ts''),
      (''.py'', ''python''),
      (''.cpp'', ''cpp''), (''.c'', ''cpp''), (''.h'', ''cpp''), (''.hpp'', ''cpp''),
      (''.ino'', ''arduino''),
      (''.json'', ''config''), (''.yaml'', ''config''), (''.yml'', ''config''),
      (''.toml'', ''config''), (''.ini'', ''config''), (''.env'', ''config'')]"

text \<open>The test of the inner loop of \<open>discover_files\<close>.\<close>

definition accepted :: "string \<Rightarrow> bool" where
  "accepted fname =
     (startswith fname ''.env'' \<or> lower (suffix_of_name fname) \<in> fst ` set LANGUAGE_MAP)"

definition pruned :: "string \<Rightarrow> bool" where
  "pruned d = (d \<in> SKIP_DIRS \<or> startswith d ''.'')"

text \<open>\<open>os.walk\<close> with the pruning of \<open>dirnames\<close>: the accepted files of a directory, then
  those of its subdirectories that are not pruned. Each file comes with its outcomes.\<close>

fun walk :: "path \<Rightarrow> fs_entry list \<Rightarrow> (path \<times> (encoding \<Rightarrow> read_outcome)) list"
  and descend :: "path \<Rightarrow> fs_entry list \<Rightarrow> (path \<times> (encoding \<Rightarrow> read_outcome)) list" where
  "walk dirpath entries =
     concat (map (\<lambda>e. case e of File fname r \<Rightarrow> if accepted fname then [(dirpath @ [fname], r)] else []
                            | Dir d sub \<Rightarrow> []) entries)
     @ descend dirpath entries"
| "descend dirpath [] = []"
| "descend dirpath (File fname r # es) = descend dirpath es"
| "descend dirpath (Dir d sub # es) =
     (if pruned d then [] else walk (dirpath @ [d]) sub) @ descend dirpath es"

text \<open>\<open>sorted(files)\<close>: paths compare as the lists of their names, names as strings,
  characters by code point.\<close>

fun str_less :: "string \<Rightarrow> string \<Rightarrow> bool" where
  "str_less [] [] = False"
| "str_less [] (d # ds) = True"
| "str_less (c # cs) [] = False"
| "str_less (c # cs) (d # ds) =
     ((of_char c :: nat) < of_char d \<or> (c = d \<and> str_less cs ds))"

fun path_less :: "path \<Rightarrow> path \<Rightarrow> bool" where
  "path_less [] [] = False"
| "path_less [] (q # qs) = True"
| "path_less (p # ps) [] = False"
| "path_less (p # ps) (q # qs) = (str_less p q \<or> (p = q \<and> path_less ps qs))"

fun insert_sorted :: "path \<times> 'a \<Rightarrow> (path \<times> 'a) list \<Rightarrow> (path \<times> 'a) list" where
  "insert_sorted x [] = [x]"
| "insert_sorted x (y # ys) =
     (if path_less (fst y) (fst x) then y # insert_sorted x ys else x # y # ys)"

definition sorted_paths :: "(path \<times> 'a) list \<Rightarrow> (path \<times> 'a) list" where
  "sorted_paths xs = foldr insert_sorted xs []"

definition discover_files :: "fs_entry list \<Rightarrow> (path \<times> (encoding \<Rightarrow> read_outcome)) list" where
  "discover_files project_root = sorted_paths (walk [] project_root)"

text \<open>\<open>read_file_safe\<close>: the loop over the three encodings. Only the decoding failure
  is caught.\<close>

fun read_with :: "encoding list \<Rightarrow> (encoding \<Rightarrow> read_outcome) \<Rightarrow> error + string" where
  "read_with [] r = Inr []"
| "read_with (enc # encs) r =
     (case r enc of
        Text s \<Rightarrow> Inr s
      | DecodeFailure \<Rightarrow> read_with encs r
      | OSFailure \<Rightarrow> Inl OSError)"

definition read_file_safe :: "(encoding \<Rightarrow> read_outcome) \<Rightarrow> error + string" where
  "read_file_safe r = read_with [UTF8, Latin1, ASCII] r"

section \<open>The pipeline\<close>

text \<open>The dispatch on the file name and suffix in the loop of \<open>build_graph\<close>.\<close>

definition parse_file :: "pylib \<Rightarrow> path \<Rightarrow> string \<Rightarrow> string \<Rightarrow> codegraph \<Rightarrow> error + codegraph" where
  "parse_file lib fpath content relp g =
     (let ext = lower (path_suffix fpath); fname = path_name fpath
      in if startswith fname ''.env'' then Inr (parse_env_file lib fpath content relp g)
         else if ext \<in> {''.js'', ''.jsx'', ''.mjs'', ''.cjs'', ''.ts'', ''.tsx''}
           then Inr (parse_javascript lib fpath content relp g)
         else if ext = ''.py'' then Inr (parse_python lib fpath content relp g)
         else if ext \<in> {''.cpp'', ''.c'', ''.h'', ''.hpp'', ''.ino''}
           then Inr (parse_cpp_arduino lib fpath content relp g)
         else if fname = ''package.json'' then parse_config_files lib fpath content relp g
         else Inr g)"

text \<open>The body of the loop of \<open>build_graph\<close> for one discovered file.\<close>

definition process_file ::
  "pylib \<Rightarrow> path \<times> (encoding \<Rightarrow> read_outcome) \<Rightarrow> codegraph \<Rightarrow> error + codegraph" where
  "process_file lib f g =
     (case read_file_safe (snd f) of
        Inl e \<Rightarrow> Inl e
      | Inr content \<Rightarrow>
          if content = [] then Inr g
          else parse_file lib (fst f) content (rel_path (fst f)) g)"

fun process_files ::
  "pylib \<Rightarrow> (path \<times> (encoding \<Rightarrow> read_outcome)) list \<Rightarrow> codegraph \<Rightarrow> error + codegraph" where
  "process_files lib [] g = Inr g"
| "process_files lib (f # fs) g =
     (case process_file lib f g of
        Inl e \<Rightarrow> Inl e
      | Inr g' \<Rightarrow> process_files lib fs g')"

definition build_graph ::
  "pylib \<Rightarrow> (string list \<Rightarrow> string list) \<Rightarrow> fs_entry list \<Rightarrow> error + codegraph" where
  "build_graph lib iter project_root =
     (case process_files lib (discover_files project_root) empty_graph of
        Inl e \<Rightarrow> Inl e
      | Inr g \<Rightarrow> Inr (detect_bridges iter g))"

section \<open>Auxiliary definitions\<close>

text \<open>The bridges that each section of \<open>detect_bridges\<close> appends, as functions of the
  nodes and edges of the graph.\<close>

definition mqtt_new :: "(string list \<Rightarrow> string list) \<Rightarrow> codegraph \<Rightarrow> bridge list" where
  "mqtt_new iter g = concat (map (\<lambda>k. bridges (mqtt_emit (fst (mqtt_tables g)) (snd (mqtt_tables g)) k empty_graph))
       (iter (map fst (fst (mqtt_tables g)) @ map fst (snd (mqtt_tables g)))))"

definition http_new :: "(string list \<Rightarrow> string list) \<Rightarrow> codegraph \<Rightarrow> bridge list" where
  "http_new iter g = concat (map (\<lambda>k. bridges (http_emit (fst (http_tables g)) (snd (http_tables g)) k empty_graph))
       (iter (map fst (fst (http_tables g)) @ map fst (snd (http_tables g)))))"

definition ws_new :: "(string list \<Rightarrow> string list) \<Rightarrow> codegraph \<Rightarrow> bridge list" where
  "ws_new iter g = concat (map (\<lambda>k. bridges (ws_emit (fst (ws_tables g)) (snd (ws_tables g)) k empty_graph))
       (iter (map fst (fst (ws_tables g)) @ map fst (snd (ws_tables g)))))"

definition env_new :: "(string list \<Rightarrow> string list) \<Rightarrow> codegraph \<Rightarrow> bridge list" where
  "env_new iter g = concat (map (\<lambda>k. bridges (env_emit (fst (env_tables g)) (snd (env_tables g)) k empty_graph))
       (iter (map fst (fst (env_tables g)) @ map fst (snd (env_tables g)))))"

definition serial_new :: "codegraph \<Rightarrow> bridge list" where
  "serial_new g = bridges (serial_section (g\<lparr>bridges := []\<rparr>))"

text \<open>A list of producer and consumer entries spans at least two distinct files or at
  least two distinct languages.\<close>

definition spans :: "entry list \<Rightarrow> bool" where
  "spans es = (card (set (map ent_file es)) > 1 \<or> card (set (map ent_language es)) > 1)"


text \<open>Every edge starts at a node of the graph; and, in addition, the node of the file
  being extracted is in the graph.\<close>

definition srcs_ok :: "codegraph \<Rightarrow> bool" where
  "srcs_ok g = (\<forall>e\<in>set (edges g). source e \<in> fst ` set (nodes g))"

definition rooted :: "string \<Rightarrow> codegraph \<Rightarrow> bool" where
  "rooted relp g = (srcs_ok g \<and> ''file:'' @ relp \<in> fst ` set (nodes g))"

text \<open>The five patterns of the variable uses and the pattern of an assignment of a
  \<open>.env\<close> file capture their name with \<open>(\w+)\<close>: a captured name holds no colon.\<close>

definition env_names_no_colon :: "pylib \<Rightarrow> bool" where
  "env_names_no_colon lib =
     ((\<forall>pat\<in>{JS_ENV_DOT, JS_ENV_INDEX, JS_ENV_META, PY_ENVIRON, PY_GETENV}.
         \<forall>line. \<forall>m\<in>set (re_finditer lib pat line). CHR '':'' \<notin> set (fst m))
      \<and> (\<forall>s m. re_match lib ENV_ASSIGN s = Some m \<longrightarrow> CHR '':'' \<notin> set (fst m)))"

text \<open>An edge of a variable points to \<open>env:<name>\<close> for a name without a colon; and a graph
  under extraction has no bridge yet and only such edges.\<close>

definition env_edge_ok :: "edge \<Rightarrow> bool" where
  "env_edge_ok e =
     (edge_type e = ''env_uses'' \<or> edge_type e = ''env_defines'' \<longrightarrow>
        (\<exists>v. target e = ''env:'' @ v \<and> CHR '':'' \<notin> set v))"

definition env_ok :: "codegraph \<Rightarrow> bool" where
  "env_ok g = (bridges g = [] \<and> (\<forall>e\<in>set (edges g). env_edge_ok e))"

text \<open>Every node carries no file or a file of \<open>S\<close>, and every edge a file of \<open>S\<close>; and, in
  addition, the file being extracted is in \<open>S\<close>.\<close>

definition owned :: "string set \<Rightarrow> codegraph \<Rightarrow> bool" where
  "owned S g =
     ((\<forall>kn\<in>set (nodes g). node_file (snd kn) = [] \<or> node_file (snd kn) \<in> S)
      \<and> (\<forall>e\<in>set (edges g). edge_file e \<in> S))"

definition own :: "string \<Rightarrow> string set \<Rightarrow> codegraph \<Rightarrow> bool" where
  "own r S g = (r \<in> S \<and> owned S g)"

text \<open>What \<open>parse_config_files\<close> can walk without an exception: content that is not JSON,
  or an object whose three entries have the methods the loops call.\<close>

definition well_shaped :: "json_outcome \<Rightarrow> bool" where
  "well_shaped j =
     (case j of
        JSONDecodeError \<Rightarrow> True
      | JsonOtherError \<Rightarrow> False
      | JsonValue NotADict \<Rightarrow> False
      | JsonValue (PkgDict deps dev scripts) \<Rightarrow>
          deps \<noteq> NotIterable \<and> dev \<noteq> NotIterable \<and> scripts \<noteq> NoItems)"









section \<open>Example projects\<close>

text \<open>
  A matcher that knows the matches of the expressions of the source on the lines of the
  example projects, and nothing else; a file that decodes as UTF-8 to the given lines.
\<close>


definition demo_finditer :: "pattern \<Rightarrow> string \<Rightarrow> (string \<times> string) list" where
  \<open>demo_finditer pat line =
     (if pat = PY_MQTT_PUB \<and> line = ''client.publish("sensors/temperature", 22)''
        then [(''sensors/temperature'', [])]
      else if pat = CPP_MQTT_SUB \<and> line = ''  mqtt.subscribe("sensors/+");''
        then [(''sensors/+'', [])]
      else if pat = JS_ENV_DOT \<and> line = ''const db = process.env.DATABASE_URL;''
        then [(''DATABASE_URL'', [])]
      else if pat = JS_ENV_DOT \<and> line = ''const port = process.env.PORT;''
        then [(''PORT'', [])]
      else [])\<close>

definition demo_lib :: pylib where
  "demo_lib = \<lparr>re_finditer = demo_finditer, re_match = (\<lambda>pat s. None),
                os_normpath = (\<lambda>p. p), json_loads = (\<lambda>s. JSONDecodeError)\<rparr>"

definition utf8_text :: "string list \<Rightarrow> encoding \<Rightarrow> read_outcome" where
  "utf8_text ls enc = Text (concat (map (\<lambda>l. l @ [CHR 0x0A]) ls))"

definition mqtt_project :: "fs_entry list" where
  \<open>mqtt_project =
     [File ''b.ino'' (utf8_text [''// sketch'', ''void setup() {'', ''}'', [], ''void loop() {'', ''  // listen'', ''  mqtt.subscribe("sensors/+");'', ''}'']),
      File ''a.py'' (utf8_text [''# publisher'', [], ''client.publish("sensors/temperature", 22)''])]\<close>

definition mqtt_scenario :: codegraph where
  "mqtt_scenario =
     emit_in ''mqtt:'' ''topic'' ''subscribes'' ''arduino'' ''b.ino'' 7 ''sensors/+''
    (add_file_node [''b.ino''] ''b.ino'' ''arduino''
    (emit_out ''mqtt:'' ''topic'' ''publishes'' ''python'' ''a.py'' 3 ''sensors/temperature''
    (add_file_node [''a.py''] ''a.py'' ''python'' empty_graph)))"



text \<open>A project of one file, \<open>srv.js\<close>, that reads two environment variables which no
  file defines, and the graph the JavaScript extractor builds from it.\<close>

definition env_project :: "fs_entry list" where
  "env_project =
     [File ''srv.js'' (utf8_text [''const db = process.env.DATABASE_URL;'',
                                  ''const port = process.env.PORT;''])]"

definition env_scenario :: codegraph where
  "env_scenario =
     env_use ''srv.js'' 2 ''PORT''
    (env_use ''srv.js'' 1 ''DATABASE_URL''
    (add_file_node [''srv.js''] ''srv.js'' ''js'' empty_graph))"

text \<open>The graph that \<open>build_graph\<close> returns for \<open>env_project\<close> when the set of the variable
  names is walked in the order of first insertion.\<close>

definition env_result :: codegraph where
  "env_result =
     env_scenario\<lparr>bridges :=
       [\<lparr>bridge_type = ''env'', bridge_key = ''UNDEFINED:DATABASE_URL'', producers = [],
         consumers = [mk_entry ''srv.js'' 1 ''js'' ''uses'']\<rparr>,
        \<lparr>bridge_type = ''env'', bridge_key = ''UNDEFINED:PORT'', producers = [],
         consumers = [mk_entry ''srv.js'' 2 ''js'' ''uses'']\<rparr>]\<rparr>"

text \<open>The project \<open>env_project\<close> with a configuration file beside the script.\<close>

definition config_project :: "fs_entry list" where
  "config_project =
     [File ''srv.js'' (utf8_text [''const db = process.env.DATABASE_URL;'',
                                  ''const port = process.env.PORT;'']),
      File ''tsconfig.json'' (utf8_text [''{}''])]"

text \<open>A file that no encoding decodes, a file that the process may not read, and a project
  with such a file.\<close>

definition undecodable :: "encoding \<Rightarrow> read_outcome" where
  "undecodable enc = DecodeFailure"

definition unreadable :: "encoding \<Rightarrow> read_outcome" where
  "unreadable enc = OSFailure"

definition locked_project :: "fs_entry list" where
  "locked_project = [File ''secret.py'' unreadable]"

section \<open>Properties of the graph container\<close>

lemma add_node_present:
  "node_id n \<in> fst ` set (nodes g) \<Longrightarrow> add_node n g = g"
  by (simp add: add_node_def)

lemma add_node_keys:
  "fst ` set (nodes (add_node n g)) = insert (node_id n) (fst ` set (nodes g))"
  by (auto simp: add_node_def)

lemma get_node_add_node:
  "get_node (add_node n g) k =
     (case get_node g k of Some m \<Rightarrow> Some m
      | None \<Rightarrow> if k = node_id n then Some n else None)"
proof (cases "node_id n \<in> fst ` set (nodes g)")
  case True
  then have "map_of (nodes g) (node_id n) \<noteq> None"
    by (simp add: map_of_eq_None_iff)
  with True show ?thesis
    by (auto simp: get_node_def add_node_def split: option.splits)
next
  case False
  then have "map_of (nodes g) (node_id n) = None"
    by (simp add: map_of_eq_None_iff)
  with False show ?thesis
    by (auto simp: get_node_def add_node_def map_add_def split: option.splits)
qed

lemma get_node_fold_add_node:
  "get_node (fold add_node ns g) k =
     (case get_node g k of Some m \<Rightarrow> Some m
      | None \<Rightarrow> find (\<lambda>n. node_id n = k) ns)"
proof (induction ns arbitrary: g)
  case Nil
  then show ?case by (simp split: option.splits)
next
  case (Cons n ns)
  show ?case
    by (auto simp: Cons.IH get_node_add_node split: option.splits)
qed


lemma nodes_add_edge: "nodes (add_edge e g) = nodes g"
  by (simp add: add_edge_def)

lemma nodes_add_bridge: "nodes (add_bridge b g) = nodes g"
  by (simp add: add_bridge_def)

text \<open>
  Claim C8. \<open>add_node\<close> appends the node under its id when the id is absent and returns
  the graph itself, unchanged in every field, when the id is present. After any sequence
  of \<open>add_node\<close> calls on the empty graph the node stored under an id is the first node
  of the sequence with that id, as it was passed in (line and metadata included), and a
  node already stored is still stored after any further calls.
\<close>

theorem add_node_first_wins:
  "(node_id n \<notin> fst ` set (nodes g) \<longrightarrow>
      nodes (add_node n g) = nodes g @ [(node_id n, n)] \<and>
      get_node (add_node n g) (node_id n) = Some n)
   \<and> (node_id n \<in> fst ` set (nodes g) \<longrightarrow> add_node n g = g)
   \<and> get_node (fold add_node ns empty_graph) k = find (\<lambda>n. node_id n = k) ns
   \<and> (get_node g k = Some m \<longrightarrow> get_node (fold add_node ns g) k = Some m)"
  by (simp add: add_node_present get_node_fold_add_node get_node_add_node)
     (auto simp: add_node_def get_node_def empty_graph_def map_of_eq_None_iff[symmetric]
           split: option.splits)

theorem add_node_first_wins_witness:
  "node_id \<lparr>node_id = ''ws:tick'', node_file = ''b.js'', node_name = ''ws:tick'',
             node_type = ''event'', node_language = ''js'', node_line = 0,
             node_metadata = []\<rparr>
     \<in> fst ` set (nodes (add_node
           \<lparr>node_id = ''ws:tick'', node_file = ''a.js'', node_name = ''ws:tick'',
             node_type = ''event'', node_language = ''js'', node_line = 4,
             node_metadata = [(''k'', ''v'')]\<rparr> empty_graph))
   \<and> add_node
         \<lparr>node_id = ''ws:tick'', node_file = ''b.js'', node_name = ''ws:tick'',
           node_type = ''event'', node_language = ''js'', node_line = 0,
           node_metadata = []\<rparr>
         (add_node
           \<lparr>node_id = ''ws:tick'', node_file = ''a.js'', node_name = ''ws:tick'',
             node_type = ''event'', node_language = ''js'', node_line = 4,
             node_metadata = [(''k'', ''v'')]\<rparr> empty_graph)
       = add_node
           \<lparr>node_id = ''ws:tick'', node_file = ''a.js'', node_name = ''ws:tick'',
             node_type = ''event'', node_language = ''js'', node_line = 4,
             node_metadata = [(''k'', ''v'')]\<rparr> empty_graph
   \<and> get_node (fold add_node
         [\<lparr>node_id = ''ws:tick'', node_file = ''a.js'', node_name = ''ws:tick'',
            node_type = ''event'', node_language = ''js'', node_line = 4,
            node_metadata = [(''k'', ''v'')]\<rparr>,
          \<lparr>node_id = ''ws:tick'', node_file = ''b.js'', node_name = ''ws:tick'',
            node_type = ''event'', node_language = ''js'', node_line = 0,
            node_metadata = []\<rparr>] empty_graph) ''ws:tick''
       = Some \<lparr>node_id = ''ws:tick'', node_file = ''a.js'', node_name = ''ws:tick'',
            node_type = ''event'', node_language = ''js'', node_line = 4,
            node_metadata = [(''k'', ''v'')]\<rparr>"
  using add_node_first_wins
    [of "\<lparr>node_id = ''ws:tick'', node_file = ''b.js'', node_name = ''ws:tick'',
           node_type = ''event'', node_language = ''js'', node_line = 0,
           node_metadata = []\<rparr>"
        "add_node
           \<lparr>node_id = ''ws:tick'', node_file = ''a.js'', node_name = ''ws:tick'',
             node_type = ''event'', node_language = ''js'', node_line = 4,
             node_metadata = [(''k'', ''v'')]\<rparr> empty_graph"
        "[\<lparr>node_id = ''ws:tick'', node_file = ''a.js'', node_name = ''ws:tick'',
            node_type = ''event'', node_language = ''js'', node_line = 4,
            node_metadata = [(''k'', ''v'')]\<rparr>,
          \<lparr>node_id = ''ws:tick'', node_file = ''b.js'', node_name = ''ws:tick'',
            node_type = ''event'', node_language = ''js'', node_line = 0,
            node_metadata = []\<rparr>]"
        "''ws:tick''"]
  by (simp add: add_node_def empty_graph_def)

section \<open>MQTT wildcard matching is the rule of the specification\<close>

lemma segments_match_refl: "segments_match xs xs"
  by (induction xs) auto

lemma mqtt_loop_segments:
  "i \<le> length tops \<Longrightarrow>
   (case mqtt_loop ps i tops of Some r \<Rightarrow> r | None \<Rightarrow> length ps + i = length tops)
     = segments_match ps (drop i tops)"
proof (induction ps arbitrary: i)
  case Nil
  then show ?case by (auto split: option.splits)
next
  case (Cons pp rest)
  show ?case
  proof (cases "i < length tops")
    case True
    then have d: "drop i tops = tops ! i # drop (Suc i) tops"
      by (simp add: Cons_nth_drop_Suc)
    from True have "Suc i \<le> length tops" by simp
    from Cons.IH[OF this] True show ?thesis
      by (auto simp: d split: option.splits)
  next
    case False
    with Cons.prems show ?thesis by (auto split: option.splits)
  qed
qed

text \<open>
  Claim C6. For every pattern and topic, \<open>mqtt_topic_matches\<close> splits both on \<open>/\<close> and
  returns what the segment rule of the specification gives on the two segment lists: a
  \<open>#\<close> segment accepts whatever remains, a \<open>+\<close> segment one topic segment, any other
  segment an equal one, and otherwise both lists have the same length.
\<close>

theorem mqtt_topic_matches_segments:
  "mqtt_topic_matches pattern topic =
     segments_match (str_split ''/'' pattern) (str_split ''/'' topic)"
proof (cases "pattern = topic")
  case True
  then show ?thesis by (simp add: mqtt_topic_matches_def segments_match_refl)
next
  case False
  have "(case mqtt_loop (str_split ''/'' pattern) 0 (str_split ''/'' topic) of
           Some r \<Rightarrow> r
         | None \<Rightarrow> length (str_split ''/'' pattern) + 0 = length (str_split ''/'' topic))
        = segments_match (str_split ''/'' pattern) (drop 0 (str_split ''/'' topic))"
    by (rule mqtt_loop_segments) simp
  with False show ?thesis
    by (simp add: mqtt_topic_matches_def Let_def split: option.splits)
qed

section \<open>Subgraph extraction on the import chain\<close>

lemma nodes_fold_bridges:
  "nodes (fold (\<lambda>b s. if P b then add_bridge b s else s) bs sub) = nodes sub"
  by (induction bs arbitrary: sub) (auto simp: add_bridge_def)

lemma edges_fold_bridges:
  "edges (fold (\<lambda>b s. if P b then add_bridge b s else s) bs sub) = edges sub"
  by (induction bs arbitrary: sub) (auto simp: add_bridge_def)

text \<open>
  Claim C2 as stated fails. Called with the file name \<open>a.js\<close> on the chain graph,
  \<open>subgraph\<close> returns the empty graph: the queue holds the name that was passed in, which
  is no node id. Called with the node id \<open>file:a.js\<close> and depth 1, it returns three
  edges, not one.
\<close>

theorem subgraph_chain_counterexample:
  "\<not> (fst ` set (nodes (subgraph chain_graph ''a.js'' 1)) = {''file:a.js'', ''file:b.js''}
      \<and> length (edges (subgraph chain_graph ''a.js'' 1)) = 1)
   \<and> subgraph chain_graph ''a.js'' 1 = empty_graph
   \<and> resolve_start chain_graph ''a.js'' = ''file:a.js''
   \<and> edges (subgraph chain_graph ''file:a.js'' 1) =
       [import_edge ''a.js'' ''b.js'' ''./b.js'', import_edge ''b.js'' ''c.js'' ''./c.js'',
        import_edge ''a.js'' ''b.js'' ''./b.js'']"
  by (simp add: subgraph_def chain_graph_def visit_def visit_forward_def visit_backward_def
        add_edge_def add_node_def get_node_def dd_get_def empty_graph_def file_node_def
        import_edge_def resolve_start_def startswith_def Let_def)

text \<open>
  Claim C2, amended. For every graph whose only edges form the chain
  \<open>file:a.js\<close> imports \<open>file:b.js\<close> imports \<open>file:c.js\<close>, \<open>subgraph\<close> started at the node
  id \<open>file:a.js\<close> with depth 1 contains exactly the nodes \<open>file:a.js\<close> and \<open>file:b.js\<close>,
  and its edge list holds every edge that touches a visited node, once for each visited
  endpoint: the edge from a to b, the edge from b to c, and the edge from a to b again.
  With depth 2 it contains \<open>file:c.js\<close> as well. In general an item whose depth exceeds
  \<open>max_depth\<close> is dropped from the queue without a visit, and every item that a visit at
  \<open>depth\<close> appends to the queue has depth \<open>depth + 1\<close>.
\<close>

theorem subgraph_chain:
  assumes "source e1 = ''file:a.js''" "target e1 = ''file:b.js''"
      and "source e2 = ''file:b.js''" "target e2 = ''file:c.js''"
      and "dd_get (adjacency g) ''file:a.js'' = [e1]"
          "dd_get (adjacency g) ''file:b.js'' = [e2]"
          "dd_get (adjacency g) ''file:c.js'' = []"
      and "dd_get (reverse_adj g) ''file:a.js'' = []"
          "dd_get (reverse_adj g) ''file:b.js'' = [e1]"
          "dd_get (reverse_adj g) ''file:c.js'' = [e2]"
      and "get_node g ''file:a.js'' = Some na" "node_id na = ''file:a.js''"
      and "get_node g ''file:b.js'' = Some nb" "node_id nb = ''file:b.js''"
      and "get_node g ''file:c.js'' = Some nc" "node_id nc = ''file:c.js''"
  shows "nodes (subgraph g ''file:a.js'' 1) = [(''file:a.js'', na), (''file:b.js'', nb)]
       \<and> edges (subgraph g ''file:a.js'' 1) = [e1, e2, e1]
       \<and> nodes (subgraph g ''file:a.js'' 2) =
           [(''file:a.js'', na), (''file:b.js'', nb), (''file:c.js'', nc)]
       \<and> edges (subgraph g ''file:a.js'' 2) = [e1, e2, e1, e2]
       \<and> (depth > max_depth \<longrightarrow>
            bfs_loop h max_depth ((current, depth) # queue) visited sub =
            bfs_loop h max_depth queue visited sub)
       \<and> (\<exists>new. snd (visit h current depth visited sub queue) = queue @ new \<and>
                 (\<forall>x\<in>set new. snd x = depth + 1))"
proof -
  have "nodes (subgraph g ''file:a.js'' 1) = [(''file:a.js'', na), (''file:b.js'', nb)]
       \<and> edges (subgraph g ''file:a.js'' 1) = [e1, e2, e1]
       \<and> nodes (subgraph g ''file:a.js'' 2) =
           [(''file:a.js'', na), (''file:b.js'', nb), (''file:c.js'', nc)]
       \<and> edges (subgraph g ''file:a.js'' 2) = [e1, e2, e1, e2]"
    using assms
    by (simp add: subgraph_def Let_def nodes_fold_bridges edges_fold_bridges visit_def
          visit_forward_def visit_backward_def add_edge_def add_node_def empty_graph_def)
  moreover have "depth > max_depth \<longrightarrow>
      bfs_loop h max_depth ((current, depth) # queue) visited sub =
      bfs_loop h max_depth queue visited sub"
    by simp
  ultimately show ?thesis
    using visit_queue[of h current depth visited sub queue] by blast
qed

theorem subgraph_chain_witness:
  "nodes (subgraph chain_graph ''file:a.js'' 1) =
     [(''file:a.js'', file_node ''a.js'' ''a.js'' ''js''),
      (''file:b.js'', file_node ''b.js'' ''b.js'' ''js'')]
   \<and> edges (subgraph chain_graph ''file:a.js'' 1) =
       [import_edge ''a.js'' ''b.js'' ''./b.js'', import_edge ''b.js'' ''c.js'' ''./c.js'',
        import_edge ''a.js'' ''b.js'' ''./b.js'']
   \<and> nodes (subgraph chain_graph ''file:a.js'' 2) =
       [(''file:a.js'', file_node ''a.js'' ''a.js'' ''js''),
        (''file:b.js'', file_node ''b.js'' ''b.js'' ''js''),
        (''file:c.js'', file_node ''c.js'' ''c.js'' ''js'')]
   \<and> bfs_loop chain_graph 1 [(''file:c.js'', 2)] {''file:a.js'', ''file:b.js''} empty_graph =
       bfs_loop chain_graph 1 [] {''file:a.js'', ''file:b.js''} empty_graph"
proof -
  have a: "dd_get (adjacency chain_graph) ''file:a.js'' = [import_edge ''a.js'' ''b.js'' ''./b.js'']"
          "dd_get (adjacency chain_graph) ''file:b.js'' = [import_edge ''b.js'' ''c.js'' ''./c.js'']"
          "dd_get (adjacency chain_graph) ''file:c.js'' = []"
    by (simp_all add: chain_graph_def add_edge_def add_node_def dd_get_def empty_graph_def
          file_node_def import_edge_def)
  have r: "dd_get (reverse_adj chain_graph) ''file:a.js'' = []"
          "dd_get (reverse_adj chain_graph) ''file:b.js'' = [import_edge ''a.js'' ''b.js'' ''./b.js'']"
          "dd_get (reverse_adj chain_graph) ''file:c.js'' = [import_edge ''b.js'' ''c.js'' ''./c.js'']"
    by (simp_all add: chain_graph_def add_edge_def add_node_def dd_get_def empty_graph_def
          file_node_def import_edge_def)
  have n: "get_node chain_graph ''file:a.js'' = Some (file_node ''a.js'' ''a.js'' ''js'')"
          "get_node chain_graph ''file:b.js'' = Some (file_node ''b.js'' ''b.js'' ''js'')"
          "get_node chain_graph ''file:c.js'' = Some (file_node ''c.js'' ''c.js'' ''js'')"
    by (simp_all add: chain_graph_def add_edge_def add_node_def get_node_def empty_graph_def
          file_node_def)
  have i: "node_id (file_node ''a.js'' ''a.js'' ''js'') = ''file:a.js''"
          "node_id (file_node ''b.js'' ''b.js'' ''js'') = ''file:b.js''"
          "node_id (file_node ''c.js'' ''c.js'' ''js'') = ''file:c.js''"
    by (simp_all add: file_node_def)
  have s: "source (import_edge ''a.js'' ''b.js'' ''./b.js'') = ''file:a.js''"
          "target (import_edge ''a.js'' ''b.js'' ''./b.js'') = ''file:b.js''"
          "source (import_edge ''b.js'' ''c.js'' ''./c.js'') = ''file:b.js''"
          "target (import_edge ''b.js'' ''c.js'' ''./c.js'') = ''file:c.js''"
    by (simp_all add: import_edge_def)
  have d: "(2::int) > 1" by simp
  from subgraph_chain
         [where depth = 2 and max_depth = 1 and h = chain_graph and current = "''file:c.js''"
            and queue = "[]" and visited = "{''file:a.js'', ''file:b.js''}"
            and sub = empty_graph,
          OF s a r n(1) i(1) n(2) i(2) n(3) i(3)]
       d
  show ?thesis by blast
qed

section \<open>What bridge detection appends\<close>


lemma fold_emit_bridges:
  assumes "\<And>k g. em k g = g\<lparr>bridges := bridges g @ bridges (em k empty_graph)\<rparr>"
  shows "fold em ks g = g\<lparr>bridges := bridges g @ concat (map (\<lambda>k. bridges (em k empty_graph)) ks)\<rparr>"
proof (induction ks arbitrary: g)
  case Nil
  then show ?case by simp
next
  case (Cons k ks)
  have "fold em (k # ks) g = fold em ks (em k g)" by simp
  also have "\<dots> = (em k g)\<lparr>bridges := bridges (em k g) @ concat (map (\<lambda>k. bridges (em k empty_graph)) ks)\<rparr>"
    by (rule Cons.IH)
  also have "em k g = g\<lparr>bridges := bridges g @ bridges (em k empty_graph)\<rparr>"
    by (rule assms)
  finally show ?case by simp
qed

lemma bridges_empty_graph [simp]: "bridges empty_graph = []"
  by (simp add: empty_graph_def)

lemma mqtt_emit_append:
  "mqtt_emit P C k g = g\<lparr>bridges := bridges g @ bridges (mqtt_emit P C k empty_graph)\<rparr>"
  by (simp add: mqtt_emit_def add_bridge_def Let_def)

lemma http_emit_append:
  "http_emit P C k g = g\<lparr>bridges := bridges g @ bridges (http_emit P C k empty_graph)\<rparr>"
  by (simp add: http_emit_def add_bridge_def Let_def)

lemma ws_emit_append:
  "ws_emit P C k g = g\<lparr>bridges := bridges g @ bridges (ws_emit P C k empty_graph)\<rparr>"
  by (simp add: ws_emit_def add_bridge_def Let_def)

lemma env_emit_append:
  "env_emit P C k g = g\<lparr>bridges := bridges g @ bridges (env_emit P C k empty_graph)\<rparr>"
  by (simp add: env_emit_def add_bridge_def Let_def)


lemma get_node_cong: "nodes g' = nodes g \<Longrightarrow> get_node g' = get_node g"
  by (rule ext) (simp add: get_node_def)

lemma lang_of_cong: "nodes g' = nodes g \<Longrightarrow> lang_of g' = lang_of g"
  by (rule ext) (simp add: lang_of_def get_node_def)

lemma file_of_target_cong: "nodes g' = nodes g \<Longrightarrow> file_of_target g' = file_of_target g"
  by (rule ext) (simp add: file_of_target_def get_node_def)

lemma mqtt_tables_cong:
  assumes "nodes g' = nodes g" "edges g' = edges g"
  shows "mqtt_tables g' = mqtt_tables g"
proof -
  have "mqtt_step g' = mqtt_step g"
    by (intro ext) (simp only: mqtt_step_def lang_of_cong[OF assms(1)] file_of_target_cong[OF assms(1)] get_node_cong[OF assms(1)])
  then show ?thesis by (simp add: mqtt_tables_def assms)
qed

lemma http_tables_cong:
  assumes "nodes g' = nodes g" "edges g' = edges g"
  shows "http_tables g' = http_tables g"
proof -
  have "http_step g' = http_step g"
    by (intro ext) (simp only: http_step_def lang_of_cong[OF assms(1)] get_node_cong[OF assms(1)])
  then show ?thesis by (simp add: http_tables_def assms)
qed

lemma ws_tables_cong:
  assumes "nodes g' = nodes g" "edges g' = edges g"
  shows "ws_tables g' = ws_tables g"
proof -
  have "ws_step g' = ws_step g"
    by (intro ext) (simp only: ws_step_def lang_of_cong[OF assms(1)] file_of_target_cong[OF assms(1)] get_node_cong[OF assms(1)])
  then show ?thesis by (simp add: ws_tables_def assms)
qed

lemma env_tables_cong:
  assumes "nodes g' = nodes g" "edges g' = edges g"
  shows "env_tables g' = env_tables g"
proof -
  have "env_step g' = env_step g"
    by (intro ext) (simp add: env_step_def lang_of_cong[OF assms(1)])
  then show ?thesis by (simp add: env_tables_def assms)
qed


lemma mqtt_section_eq: "mqtt_section iter g = g\<lparr>bridges := bridges g @ mqtt_new iter g\<rparr>"
  unfolding mqtt_section_def Let_def mqtt_new_def
  by (rule fold_emit_bridges) (rule mqtt_emit_append)

lemma http_section_eq: "http_section iter g = g\<lparr>bridges := bridges g @ http_new iter g\<rparr>"
  unfolding http_section_def Let_def http_new_def
  by (rule fold_emit_bridges) (rule http_emit_append)

lemma ws_section_eq: "ws_section iter g = g\<lparr>bridges := bridges g @ ws_new iter g\<rparr>"
  unfolding ws_section_def Let_def ws_new_def
  by (rule fold_emit_bridges) (rule ws_emit_append)

lemma env_section_eq: "env_section iter g = g\<lparr>bridges := bridges g @ env_new iter g\<rparr>"
  unfolding env_section_def Let_def env_new_def
  by (rule fold_emit_bridges) (rule env_emit_append)


lemma serial_step_cong:
  assumes "nodes g' = nodes g"
  shows "serial_step g' = serial_step g"
  by (intro ext) (simp only: serial_step_def lang_of_cong[OF assms])

lemma serial_section_eq: "serial_section g = g\<lparr>bridges := bridges g @ serial_new g\<rparr>"
proof -
  have "serial_step (g\<lparr>bridges := []\<rparr>) = serial_step g"
    by (rule serial_step_cong) simp
  then show ?thesis
    by (simp add: serial_section_def serial_new_def Let_def add_bridge_def)
qed


lemma new_cong:
  assumes "nodes g' = nodes g" "edges g' = edges g"
  shows "http_new iter g' = http_new iter g" "ws_new iter g' = ws_new iter g"
        "env_new iter g' = env_new iter g" "serial_new g' = serial_new g"
        "mqtt_new iter g' = mqtt_new iter g"
proof -
  show "http_new iter g' = http_new iter g"
    by (simp add: http_new_def http_tables_cong[OF assms])
  show "ws_new iter g' = ws_new iter g"
    by (simp add: ws_new_def ws_tables_cong[OF assms])
  show "env_new iter g' = env_new iter g"
    by (simp add: env_new_def env_tables_cong[OF assms])
  show "mqtt_new iter g' = mqtt_new iter g"
    by (simp add: mqtt_new_def mqtt_tables_cong[OF assms])
  have "serial_step (g'\<lparr>bridges := []\<rparr>) = serial_step (g\<lparr>bridges := []\<rparr>)"
    by (rule serial_step_cong) (simp add: assms)
  then show "serial_new g' = serial_new g"
    by (simp add: serial_new_def serial_section_def Let_def add_bridge_def assms)
qed


lemma detect_bridges_eq:
  "detect_bridges iter g =
     g\<lparr>bridges := bridges g @ mqtt_new iter g @ http_new iter g @ ws_new iter g @
                  serial_new g @ env_new iter g\<rparr>"
proof -
  define g1 where "g1 = g\<lparr>bridges := bridges g @ mqtt_new iter g\<rparr>"
  define g2 where "g2 = g1\<lparr>bridges := bridges g1 @ http_new iter g\<rparr>"
  define g3 where "g3 = g2\<lparr>bridges := bridges g2 @ ws_new iter g\<rparr>"
  define g4 where "g4 = g3\<lparr>bridges := bridges g3 @ serial_new g\<rparr>"
  have n1: "nodes g1 = nodes g" "edges g1 = edges g" by (simp_all add: g1_def)
  have n2: "nodes g2 = nodes g" "edges g2 = edges g" by (simp_all add: g2_def n1)
  have n3: "nodes g3 = nodes g" "edges g3 = edges g" by (simp_all add: g3_def n2)
  have n4: "nodes g4 = nodes g" "edges g4 = edges g" by (simp_all add: g4_def n3)
  have s1: "mqtt_section iter g = g1"
    by (simp add: mqtt_section_eq g1_def)
  have s2: "http_section iter g1 = g2"
    by (simp add: http_section_eq g2_def new_cong[OF n1])
  have s3: "ws_section iter g2 = g3"
    by (simp add: ws_section_eq g3_def new_cong[OF n2])
  have s4: "serial_section g3 = g4"
    by (simp add: serial_section_eq g4_def new_cong[OF n3])
  have s5: "env_section iter g4 = g4\<lparr>bridges := bridges g4 @ env_new iter g\<rparr>"
    by (simp add: env_section_eq new_cong[OF n4])
  have "detect_bridges iter g = g4\<lparr>bridges := bridges g4 @ env_new iter g\<rparr>"
    by (simp only: detect_bridges_def s1 s2 s3 s4 s5)
  then show ?thesis
    by (simp add: g1_def g2_def g3_def g4_def)
qed

lemma card_empty_files: "\<not> 1 < card (set (map f ([]::entry list)) \<union> set (map f []))"
  by simp

lemma mqtt_emit_out:
  "bridges (mqtt_emit P C k empty_graph) =
     (if spans (dd_get P k @ mqtt_cons C k)
      then [\<lparr>bridge_type = ''mqtt'', bridge_key = k, producers = dd_get P k,
             consumers = mqtt_cons C k\<rparr>]
      else [])"
  by (auto simp: mqtt_emit_def spans_def Let_def add_bridge_def)

lemma mqtt_cons_concat_aux:
  "fold (\<lambda>kv cons. if fst kv \<noteq> T \<and> mqtt_topic_matches (fst kv) T then cons @ snd kv else cons) C acc
     = acc @ concat (map snd (filter (\<lambda>kv. fst kv \<noteq> T \<and> mqtt_topic_matches (fst kv) T) C))"
  by (induction C arbitrary: acc) auto

lemma mqtt_cons_concat:
  "mqtt_cons C T = dd_get C T @ concat (map snd (filter (\<lambda>kv. fst kv \<noteq> T \<and> mqtt_topic_matches (fst kv) T) C))"
  by (simp add: mqtt_cons_def mqtt_cons_concat_aux)

lemma http_new_type: "b \<in> set (http_new iter g) \<Longrightarrow> bridge_type b = ''http''"
  by (auto simp: http_new_def http_emit_def Let_def add_bridge_def split: if_splits)

lemma ws_new_type: "b \<in> set (ws_new iter g) \<Longrightarrow> bridge_type b = ''websocket''"
  by (auto simp: ws_new_def ws_emit_def Let_def add_bridge_def split: if_splits)

lemma env_new_type: "b \<in> set (env_new iter g) \<Longrightarrow> bridge_type b = ''env''"
  by (auto simp: env_new_def env_emit_def Let_def add_bridge_def split: if_splits)

lemma serial_new_type: "b \<in> set (serial_new g) \<Longrightarrow> bridge_type b = ''serial''"
  by (auto simp: serial_new_def serial_section_def Let_def add_bridge_def split: if_splits)

lemma mqtt_new_type: "b \<in> set (mqtt_new iter g) \<Longrightarrow> bridge_type b = ''mqtt''"
  by (auto simp: mqtt_new_def mqtt_emit_out split: if_splits)

lemma mqtt_bridges_of_detect:
  assumes "bridges g = []"
  shows "filter (\<lambda>b. bridge_type b = ''mqtt'') (bridges (detect_bridges iter g)) = mqtt_new iter g"
proof -
  have a: "filter (\<lambda>b. bridge_type b = ''mqtt'') (mqtt_new iter g) = mqtt_new iter g"
    by (rule filter_True) (simp add: mqtt_new_type)
  have b: "filter (\<lambda>b. bridge_type b = ''mqtt'') (http_new iter g) = []"
    by (rule filter_False) (auto dest: http_new_type)
  have c: "filter (\<lambda>b. bridge_type b = ''mqtt'') (ws_new iter g) = []"
    by (rule filter_False) (auto dest: ws_new_type)
  have d: "filter (\<lambda>b. bridge_type b = ''mqtt'') (serial_new g) = []"
    by (rule filter_False) (auto dest: serial_new_type)
  have e: "filter (\<lambda>b. bridge_type b = ''mqtt'') (env_new iter g) = []"
    by (rule filter_False) (auto dest: env_new_type)
  show ?thesis
    by (simp add: detect_bridges_eq assms a b c d e)
qed

lemma mqtt_new_eq:
  "mqtt_new iter g =
     map (\<lambda>k. \<lparr>bridge_type = ''mqtt'', bridge_key = k,
               producers = dd_get (fst (mqtt_tables g)) k,
               consumers = mqtt_cons (snd (mqtt_tables g)) k\<rparr>)
       (filter (\<lambda>k. spans (dd_get (fst (mqtt_tables g)) k @ mqtt_cons (snd (mqtt_tables g)) k))
          (iter (map fst (fst (mqtt_tables g)) @ map fst (snd (mqtt_tables g)))))"
proof -
  have "concat (map (\<lambda>k. if Q k then [f k] else []) ks) = map f (filter Q ks)" for Q f and ks :: "string list"
    by (induction ks) auto
  then show ?thesis
    by (simp add: mqtt_new_def mqtt_emit_out)
qed

section \<open>MQTT bridges\<close>

lemma mqtt_project_discovered: \<open>discover_files mqtt_project =
   [([''a.py''], utf8_text [''# publisher'', [], ''client.publish("sensors/temperature", 22)'']),
    ([''b.ino''], utf8_text [''// sketch'', ''void setup() {'', ''}'', [], ''void loop() {'', ''  // listen'', ''  mqtt.subscribe("sensors/+");'', ''}''])]\<close>
  by (simp add: discover_files_def mqtt_project_def sorted_paths_def accepted_def startswith_def suffix_of_name_def lower_def lower_char_def upper_letters_def lower_letters_def latin1_upper_def latin1_lower_def LANGUAGE_MAP_def)

lemmas pipeline_defs = process_file_def read_file_safe_def utf8_text_def parse_file_def rel_path_def path_name_def path_suffix_def suffix_of_name_def
      startswith_def lower_def lower_char_def upper_letters_def lower_letters_def latin1_upper_def latin1_lower_def
      parse_python_def parse_cpp_arduino_def for_lines_def splitlines_def is_linebreak_def skip_line_def strip_def is_space_def
      Let_def py_line_def cpp_line_def demo_lib_def demo_finditer_def env_uses_of_def py_routes_def py_http_calls_def py_serial_def py_definitions_def py_imports_def
     cpp_http_def cpp_serial_def cpp_function_def cpp_include_def


lemma iter_nil: "set_iter_ok iter \<Longrightarrow> iter [] = []"
  by (metis set_iter_ok_def set_empty)

lemma filter_single:
  "distinct xs \<Longrightarrow> a \<in> set xs \<Longrightarrow> (\<And>x. x \<in> set xs \<Longrightarrow> Q x = (x = a)) \<Longrightarrow> filter Q xs = [a]"
proof (induction xs)
  case Nil
  then show ?case by simp
next
  case (Cons x xs)
  show ?case
  proof (cases "x = a")
    case True
    with Cons.prems have "filter Q xs = []"
      by (intro filter_False) auto
    with True Cons.prems show ?thesis by simp
  next
    case False
    with Cons show ?thesis by auto
  qed
qed

lemma mqtt_scenario_built:
  "process_files demo_lib (discover_files mqtt_project) empty_graph = Inr mqtt_scenario"
  by (simp add: mqtt_project_discovered pipeline_defs mqtt_scenario_def)

lemmas graph_defs = mqtt_scenario_def emit_in_def emit_out_def add_file_node_def mk_node_def mk_edge_def
  add_node_def add_edge_def empty_graph_def path_name_def

lemma mqtt_scenario_tables:
  "mqtt_tables mqtt_scenario =
     ([(''sensors/temperature'', [mk_entry ''a.py'' 3 ''python'' ''publish''])],
      [(''sensors/+'', [mk_entry ''b.ino'' 7 ''arduino'' ''subscribe''])])"
  "http_tables mqtt_scenario = ([], [])"
  "ws_tables mqtt_scenario = ([], [])"
  "env_tables mqtt_scenario = ([], [])"
  "serial_new mqtt_scenario = []"
  "bridges mqtt_scenario = []"
  by (simp_all add: graph_defs mqtt_tables_def mqtt_step_def http_tables_def http_step_def ws_tables_def ws_step_def
       env_tables_def env_step_def serial_new_def serial_section_def serial_step_def get_node_def lang_of_def file_of_target_def
       startswith_def Let_def)

lemma mqtt_scenario_bridges:
  assumes "set_iter_ok iter"
  shows "bridges (detect_bridges iter mqtt_scenario) =
     [\<lparr>bridge_type = ''mqtt'', bridge_key = ''sensors/temperature'',
       producers = [mk_entry ''a.py'' 3 ''python'' ''publish''],
       consumers = [mk_entry ''b.ino'' 7 ''arduino'' ''subscribe'']\<rparr>]"
proof -
  let ?ks = "iter [''sensors/temperature'', ''sensors/+'']"
  let ?P = "[(''sensors/temperature'', [mk_entry ''a.py'' 3 ''python'' ''publish''])]"
  let ?C = "[(''sensors/+'', [mk_entry ''b.ino'' 7 ''arduino'' ''subscribe''])]"
  have ks: "distinct ?ks" "set ?ks = {''sensors/temperature'', ''sensors/+''}"
    using assms by (simp_all add: set_iter_ok_def)
  have m: "mqtt_topic_matches ''sensors/+'' ''sensors/temperature''"
    by (simp add: mqtt_topic_matches_def startswith_def)
  have sp: "spans (dd_get ?P x @ mqtt_cons ?C x) = (x = ''sensors/temperature'')" if "x \<in> set ?ks" for x
    using that m unfolding ks(2)
    by (auto simp: spans_def dd_get_def mqtt_cons_def mk_entry_def)
  have f: "filter (\<lambda>k. spans (dd_get ?P k @ mqtt_cons ?C k)) ?ks = [''sensors/temperature'']"
    by (rule filter_single[OF ks(1)]) (simp_all add: ks(2) sp)
  have "mqtt_new iter mqtt_scenario =
      map (\<lambda>k. \<lparr>bridge_type = ''mqtt'', bridge_key = k, producers = dd_get ?P k,
                 consumers = mqtt_cons ?C k\<rparr>)
        (filter (\<lambda>k. spans (dd_get ?P k @ mqtt_cons ?C k)) ?ks)"
    by (simp only: mqtt_new_eq mqtt_scenario_tables fst_conv snd_conv list.map append_Cons
          append_Nil)
  also have "\<dots> =
      map (\<lambda>k. \<lparr>bridge_type = ''mqtt'', bridge_key = k, producers = dd_get ?P k,
                 consumers = mqtt_cons ?C k\<rparr>) [''sensors/temperature'']"
    by (simp only: f)
  also have "\<dots> =
      [\<lparr>bridge_type = ''mqtt'', bridge_key = ''sensors/temperature'',
        producers = [mk_entry ''a.py'' 3 ''python'' ''publish''],
        consumers = [mk_entry ''b.ino'' 7 ''arduino'' ''subscribe'']\<rparr>]"
    using m by (simp add: dd_get_def mqtt_cons_def)
  finally have "mqtt_new iter mqtt_scenario =
      [\<lparr>bridge_type = ''mqtt'', bridge_key = ''sensors/temperature'',
        producers = [mk_entry ''a.py'' 3 ''python'' ''publish''],
        consumers = [mk_entry ''b.ino'' 7 ''arduino'' ''subscribe'']\<rparr>]" .
  moreover have "http_new iter mqtt_scenario = []" "ws_new iter mqtt_scenario = []"
     "env_new iter mqtt_scenario = []"
    by (simp_all add: http_new_def ws_new_def env_new_def mqtt_scenario_tables iter_nil[OF assms])
  ultimately show ?thesis
    by (simp add: detect_bridges_eq mqtt_scenario_tables)
qed

text \<open>
  Claim C3. Started on a graph without bridges, \<open>detect_bridges\<close> emits an MQTT bridge
  with key \<open>T\<close> if and only if \<open>T\<close> is one of the keys it collected and the producers of
  \<open>T\<close> together with its consumers span at least two files or at least two languages.
  The consumers of \<open>T\<close> are those recorded under \<open>T\<close> followed by those of every other
  subscribed key that matches \<open>T\<close>. Such a bridge carries exactly these producers and
  consumers, and no key gets more than one bridge. For the project in which line 3 of
  \<open>a.py\<close> publishes \<open>sensors/temperature\<close> and line 7 of \<open>b.ino\<close> subscribes
  \<open>sensors/+\<close>, the only bridge of the built graph has the key \<open>sensors/temperature\<close>,
  the Python publisher as its producer and the Arduino subscriber as its consumer.
\<close>

theorem mqtt_bridge_iff:
  assumes "set_iter_ok iter" and "bridges g = []"
  shows "((\<exists>b\<in>set (bridges (detect_bridges iter g)). bridge_type b = ''mqtt'' \<and> bridge_key b = T) \<longleftrightarrow>
            T \<in> set (map fst (fst (mqtt_tables g)) @ map fst (snd (mqtt_tables g))) \<and>
            spans (dd_get (fst (mqtt_tables g)) T @ mqtt_cons (snd (mqtt_tables g)) T))
       \<and> (\<forall>b\<in>set (bridges (detect_bridges iter g)). bridge_type b = ''mqtt'' \<longrightarrow>
            producers b = dd_get (fst (mqtt_tables g)) (bridge_key b) \<and>
            consumers b = mqtt_cons (snd (mqtt_tables g)) (bridge_key b))
       \<and> length (filter (\<lambda>b. bridge_type b = ''mqtt'' \<and> bridge_key b = T)
                   (bridges (detect_bridges iter g))) \<le> 1
       \<and> mqtt_cons C T =
           dd_get C T @
           concat (map snd (filter (\<lambda>kv. fst kv \<noteq> T \<and> mqtt_topic_matches (fst kv) T) C))
       \<and> build_graph demo_lib iter mqtt_project =
           Inr (mqtt_scenario\<lparr>bridges :=
             [\<lparr>bridge_type = ''mqtt'', bridge_key = ''sensors/temperature'',
               producers = [mk_entry ''a.py'' 3 ''python'' ''publish''],
               consumers = [mk_entry ''b.ino'' 7 ''arduino'' ''subscribe'']\<rparr>]\<rparr>)"
proof -
  let ?ks = "iter (map fst (fst (mqtt_tables g)) @ map fst (snd (mqtt_tables g)))"
  let ?Q = "\<lambda>k. spans (dd_get (fst (mqtt_tables g)) k @ mqtt_cons (snd (mqtt_tables g)) k)"
  let ?mk = "\<lambda>k. \<lparr>bridge_type = ''mqtt'', bridge_key = k,
               producers = dd_get (fst (mqtt_tables g)) k,
               consumers = mqtt_cons (snd (mqtt_tables g)) k\<rparr>"
  have ks: "distinct ?ks" "set ?ks = set (map fst (fst (mqtt_tables g)) @ map fst (snd (mqtt_tables g)))"
    using assms(1) by (simp_all add: set_iter_ok_def)
  have new: "mqtt_new iter g = map ?mk (filter ?Q ?ks)"
    by (rule mqtt_new_eq)
  have mem: "(\<exists>b\<in>set (bridges (detect_bridges iter g)). bridge_type b = ''mqtt'' \<and> bridge_key b = T)
      \<longleftrightarrow> (\<exists>b\<in>set (mqtt_new iter g). bridge_key b = T)"
    using mqtt_bridges_of_detect[OF assms(2), of iter, symmetric] by auto
  have one: "(\<exists>b\<in>set (mqtt_new iter g). bridge_key b = T) \<longleftrightarrow> T \<in> set ?ks \<and> ?Q T"
    by (auto simp: new)
  have two: "\<forall>b\<in>set (bridges (detect_bridges iter g)). bridge_type b = ''mqtt'' \<longrightarrow>
            producers b = dd_get (fst (mqtt_tables g)) (bridge_key b) \<and>
            consumers b = mqtt_cons (snd (mqtt_tables g)) (bridge_key b)"
  proof (intro ballI impI)
    fix b assume "b \<in> set (bridges (detect_bridges iter g))" "bridge_type b = ''mqtt''"
    then have "b \<in> set (mqtt_new iter g)"
      using mqtt_bridges_of_detect[OF assms(2), of iter, symmetric] by auto
    then show "producers b = dd_get (fst (mqtt_tables g)) (bridge_key b) \<and>
            consumers b = mqtt_cons (snd (mqtt_tables g)) (bridge_key b)"
      by (auto simp: new)
  qed
  have "filter (\<lambda>b. bridge_type b = ''mqtt'' \<and> bridge_key b = T) (bridges (detect_bridges iter g))
      = filter (\<lambda>b. bridge_key b = T) (filter (\<lambda>b. bridge_type b = ''mqtt'') (bridges (detect_bridges iter g)))"
    by (simp add: conj_commute)
  also have "\<dots> = filter (\<lambda>b. bridge_key b = T) (map ?mk (filter ?Q ?ks))"
    by (simp only: mqtt_bridges_of_detect[OF assms(2)] new)
  also have "\<dots> = map ?mk (filter (\<lambda>k. k = T) (filter ?Q ?ks))"
    by (simp add: filter_map comp_def)
  finally have "length (filter (\<lambda>b. bridge_type b = ''mqtt'' \<and> bridge_key b = T) (bridges (detect_bridges iter g)))
      = length (filter (\<lambda>k. k = T) (filter ?Q ?ks))"
    by simp
  also have "\<dots> \<le> 1"
  proof -
    have "distinct (filter ?Q ?ks)" using ks(1) by simp
    then have "length (filter (\<lambda>k. k = T) (filter ?Q ?ks)) = (if T \<in> set (filter ?Q ?ks) then 1 else 0)"
      by (metis (mono_tags, lifting) distinct_length_filter Collect_cong Int_insert_left_if0 Int_insert_left_if1 card.empty card_insert_disjoint empty_iff finite.emptyI inf_bot_left singleton_conv One_nat_def) 
    then show ?thesis by simp
  qed
  finally have three: "length (filter (\<lambda>b. bridge_type b = ''mqtt'' \<and> bridge_key b = T)
                   (bridges (detect_bridges iter g))) \<le> 1" .
  have four: "build_graph demo_lib iter mqtt_project =
           Inr (mqtt_scenario\<lparr>bridges :=
             [\<lparr>bridge_type = ''mqtt'', bridge_key = ''sensors/temperature'',
               producers = [mk_entry ''a.py'' 3 ''python'' ''publish''],
               consumers = [mk_entry ''b.ino'' 7 ''arduino'' ''subscribe'']\<rparr>]\<rparr>)"
    using mqtt_scenario_bridges[OF assms(1)]
    by (simp add: build_graph_def mqtt_scenario_built detect_bridges_eq mqtt_scenario_tables)
  show ?thesis
    using mem one ks(2) two three four mqtt_cons_concat[of C T] by simp
qed

theorem mqtt_bridge_iff_witness:
  "set_iter_ok remdups \<and> bridges mqtt_scenario = []
   \<and> (\<exists>b. b \<in> set (bridges (detect_bridges remdups mqtt_scenario)) \<and>
          bridge_type b = ''mqtt'' \<and> bridge_key b = ''sensors/temperature'')
   \<and> length (filter (\<lambda>b. bridge_type b = ''mqtt'' \<and> bridge_key b = ''sensors/temperature'')
               (bridges (detect_bridges remdups mqtt_scenario))) \<le> 1
   \<and> build_graph demo_lib remdups mqtt_project =
         Inr (mqtt_scenario\<lparr>bridges :=
           [\<lparr>bridge_type = ''mqtt'', bridge_key = ''sensors/temperature'',
             producers = [mk_entry ''a.py'' 3 ''python'' ''publish''],
             consumers = [mk_entry ''b.ino'' 7 ''arduino'' ''subscribe'']\<rparr>]\<rparr>)"
proof -
  have ok: "set_iter_ok remdups"
    by (simp add: set_iter_ok_def)
  have e: "bridges mqtt_scenario = []"
    by (rule mqtt_scenario_tables)
  have m: "mqtt_topic_matches ''sensors/+'' ''sensors/temperature''"
    by (simp add: mqtt_topic_matches_def startswith_def)
  have r: "''sensors/temperature'' \<in> set (map fst (fst (mqtt_tables mqtt_scenario)) @
                                             map fst (snd (mqtt_tables mqtt_scenario))) \<and>
        spans (dd_get (fst (mqtt_tables mqtt_scenario)) ''sensors/temperature'' @
               mqtt_cons (snd (mqtt_tables mqtt_scenario)) ''sensors/temperature'')"
    using m by (simp add: mqtt_scenario_tables spans_def dd_get_def mqtt_cons_def mk_entry_def)
  from mqtt_bridge_iff[OF ok e, of "''sensors/temperature''" "[]"] r ok e
  show ?thesis by blast
qed

section \<open>HTTP path normalization and HTTP bridges\<close>




lemma brace_group_no_brace: "CHR ''{'' \<notin> set s \<Longrightarrow> brace_group s = None"
  by (cases s) (auto simp: brace_group_def)



lemma sub_dollar_no_brace: "CHR ''{'' \<notin> set s \<Longrightarrow> sub_dollar s = s"
  by (induction s) (auto simp: brace_group_no_brace)

























section \<open>The order of the bridges follows the order of a set\<close>


lemma env_project_discovered:
  "discover_files env_project =
     [([''srv.js''], utf8_text [''const db = process.env.DATABASE_URL;'',
                                ''const port = process.env.PORT;''])]"
  by (simp add: discover_files_def env_project_def sorted_paths_def accepted_def startswith_def
        suffix_of_name_def lower_def lower_char_def upper_letters_def lower_letters_def latin1_upper_def latin1_lower_def
        LANGUAGE_MAP_def)

lemmas js_pipeline_defs = parse_javascript_def js_line_def js_imports_def js_exports_def
  js_routes_def js_api_calls_def

lemma env_scenario_built:
  "process_files demo_lib (discover_files env_project) empty_graph = Inr env_scenario"
  by (simp add: env_project_discovered pipeline_defs js_pipeline_defs env_scenario_def)

lemma env_scenario_tables:
  "env_tables env_scenario =
     ([], [(''DATABASE_URL'', [mk_entry ''srv.js'' 1 ''js'' ''uses'']),
           (''PORT'', [mk_entry ''srv.js'' 2 ''js'' ''uses''])])"
  "mqtt_tables env_scenario = ([], [])"
  "http_tables env_scenario = ([], [])"
  "ws_tables env_scenario = ([], [])"
  "serial_new env_scenario = []"
  "bridges env_scenario = []"
  by (simp_all add: env_scenario_def env_use_def add_file_node_def mk_node_def mk_edge_def
        add_node_def add_edge_def empty_graph_def path_name_def env_tables_def env_step_def
        mqtt_tables_def mqtt_step_def http_tables_def http_step_def ws_tables_def ws_step_def
        serial_new_def serial_section_def serial_step_def get_node_def lang_of_def
        startswith_def Let_def)

lemma env_scenario_languages:
  "map (\<lambda>kn. node_language (snd kn)) (nodes env_scenario) = [''js'', ''config'', ''config'']"
  by (simp add: env_scenario_def env_use_def add_file_node_def mk_node_def mk_edge_def
        add_node_def add_edge_def empty_graph_def path_name_def)

text \<open>
  Claim C1. The code does not have the property. \<open>detect_bridges\<close> and \<open>stats\<close> walk
  Python sets of strings, whose order is not fixed from one run to the next. For the
  project \<open>env_project\<close>, two orders that both satisfy \<open>set_iter_ok\<close> give the two
  bridges in opposite orders, and the list of languages in opposite orders.
\<close>

theorem set_order_changes_output:
  "set_iter_ok remdups \<and> set_iter_ok (rev \<circ> remdups)
   \<and> build_graph demo_lib remdups env_project =
       Inr (env_scenario\<lparr>bridges :=
         [\<lparr>bridge_type = ''env'', bridge_key = ''UNDEFINED:DATABASE_URL'', producers = [],
           consumers = [mk_entry ''srv.js'' 1 ''js'' ''uses'']\<rparr>,
          \<lparr>bridge_type = ''env'', bridge_key = ''UNDEFINED:PORT'', producers = [],
           consumers = [mk_entry ''srv.js'' 2 ''js'' ''uses'']\<rparr>]\<rparr>)
   \<and> build_graph demo_lib (rev \<circ> remdups) env_project =
       Inr (env_scenario\<lparr>bridges :=
         [\<lparr>bridge_type = ''env'', bridge_key = ''UNDEFINED:PORT'', producers = [],
           consumers = [mk_entry ''srv.js'' 2 ''js'' ''uses'']\<rparr>,
          \<lparr>bridge_type = ''env'', bridge_key = ''UNDEFINED:DATABASE_URL'', producers = [],
           consumers = [mk_entry ''srv.js'' 1 ''js'' ''uses'']\<rparr>]\<rparr>)
   \<and> stats_languages remdups env_scenario = [''js'', ''config'']
   \<and> stats_languages (rev \<circ> remdups) env_scenario = [''config'', ''js'']"
proof -
  have ok: "set_iter_ok remdups" "set_iter_ok (rev \<circ> remdups)"
    by (simp_all add: set_iter_ok_def)
  have a: "detect_bridges remdups env_scenario = env_scenario\<lparr>bridges :=
         [\<lparr>bridge_type = ''env'', bridge_key = ''UNDEFINED:DATABASE_URL'', producers = [],
           consumers = [mk_entry ''srv.js'' 1 ''js'' ''uses'']\<rparr>,
          \<lparr>bridge_type = ''env'', bridge_key = ''UNDEFINED:PORT'', producers = [],
           consumers = [mk_entry ''srv.js'' 2 ''js'' ''uses'']\<rparr>]\<rparr>"
    by (simp add: detect_bridges_eq env_scenario_tables mqtt_new_def http_new_def ws_new_def
          env_new_def env_emit_def dd_get_def add_bridge_def Let_def)
  have b: "detect_bridges (rev \<circ> remdups) env_scenario = env_scenario\<lparr>bridges :=
         [\<lparr>bridge_type = ''env'', bridge_key = ''UNDEFINED:PORT'', producers = [],
           consumers = [mk_entry ''srv.js'' 2 ''js'' ''uses'']\<rparr>,
          \<lparr>bridge_type = ''env'', bridge_key = ''UNDEFINED:DATABASE_URL'', producers = [],
           consumers = [mk_entry ''srv.js'' 1 ''js'' ''uses'']\<rparr>]\<rparr>"
    by (simp add: detect_bridges_eq env_scenario_tables mqtt_new_def http_new_def ws_new_def
          env_new_def env_emit_def dd_get_def add_bridge_def Let_def)
  have c: "stats_languages remdups env_scenario = [''js'', ''config'']"
     "stats_languages (rev \<circ> remdups) env_scenario = [''config'', ''js'']"
    by (simp_all add: stats_languages_def env_scenario_languages)
  show ?thesis
    using ok c by (simp add: build_graph_def env_scenario_built a b)
qed

section \<open>Facts shared by the proofs about the pipeline\<close>

lemma edge_fields [simp]:
  "source (mk_edge s t ty f ln md) = s" "target (mk_edge s t ty f ln md) = t"
  "edge_type (mk_edge s t ty f ln md) = ty"
  by (simp_all add: mk_edge_def)

lemma node_id_mk_node [simp]: "node_id (mk_node i f n t l ln md) = i"
  by (simp add: mk_node_def)

lemma env_scenario_detected: "detect_bridges remdups env_scenario = env_result"
  by (simp add: detect_bridges_eq env_scenario_tables mqtt_new_def http_new_def ws_new_def
        env_new_def env_emit_def dd_get_def add_bridge_def Let_def env_result_def)

lemma env_project_graph: "build_graph demo_lib remdups env_project = Inr env_result"
proof -
  have "detect_bridges remdups env_scenario = env_result"
    by (simp add: detect_bridges_eq env_scenario_tables mqtt_new_def http_new_def ws_new_def
          env_new_def env_emit_def dd_get_def add_bridge_def Let_def env_result_def)
  then show ?thesis
    by (simp add: build_graph_def env_scenario_built)
qed

section \<open>Every edge starts at a node\<close>


lemma rooted_add_node: "rooted r g \<Longrightarrow> rooted r (add_node n g)"
  by (auto simp: rooted_def srcs_ok_def add_node_def)

lemma rooted_add_edge_file:
  "rooted r g \<Longrightarrow> source e = ''file:'' @ r \<Longrightarrow> rooted r (add_edge e g)"
  by (auto simp: rooted_def srcs_ok_def add_edge_def)

lemma rooted_add_edge_node:
  "rooted r g \<Longrightarrow> source e = node_id n \<Longrightarrow> rooted r (add_edge e (add_node n g))"
  by (auto simp: rooted_def srcs_ok_def add_edge_def add_node_def)

lemma rooted_fold:
  "(\<And>x g. rooted r g \<Longrightarrow> rooted r (f x g)) \<Longrightarrow> rooted r g \<Longrightarrow> rooted r (fold f xs g)"
  by (induction xs arbitrary: g) auto

lemma rooted_emit_out: "rooted r g \<Longrightarrow> rooted r (emit_out p nt et lang r ln name g)"
  unfolding emit_out_def by (intro rooted_add_edge_file rooted_add_node) simp_all

lemma rooted_emit_in: "rooted r g \<Longrightarrow> rooted r (emit_in p nt et lang r ln name g)"
  unfolding emit_in_def by (intro rooted_add_edge_node) simp_all

lemma rooted_env_use: "rooted r g \<Longrightarrow> rooted r (env_use r ln var g)"
  unfolding env_use_def by (intro rooted_add_edge_file rooted_add_node) simp_all

lemma rooted_env_uses_of: "rooted r g \<Longrightarrow> rooted r (env_uses_of lib pats r ln line g)"
  unfolding env_uses_of_def by (intro rooted_fold rooted_env_use)

lemma rooted_js_imports: "rooted r g \<Longrightarrow> rooted r (js_imports lib r ln line g)"
  unfolding js_imports_def by (intro rooted_fold rooted_add_edge_file) simp_all

lemma rooted_js_export: "rooted r g \<Longrightarrow> rooted r (js_export lang r ln name g)"
  unfolding js_export_def by (auto intro!: rooted_add_edge_file rooted_add_node)

lemma rooted_js_exports: "rooted r g \<Longrightarrow> rooted r (js_exports lib lang r ln line g)"
  unfolding js_exports_def by (intro rooted_fold rooted_js_export)

lemma rooted_js_route: "rooted r g \<Longrightarrow> rooted r (js_route lang r ln m g)"
  unfolding js_route_def Let_def by (intro rooted_add_edge_file rooted_add_node) simp_all

lemma rooted_js_routes: "rooted r g \<Longrightarrow> rooted r (js_routes lib lang r ln line g)"
  unfolding js_routes_def by (intro rooted_fold rooted_js_route)

lemma rooted_js_api_call: "rooted r g \<Longrightarrow> rooted r (js_api_call d r ln m g)"
  unfolding js_api_call_def Let_def by (intro rooted_add_edge_file) simp_all

lemma rooted_js_api_calls: "rooted r g \<Longrightarrow> rooted r (js_api_calls lib r ln line g)"
  unfolding js_api_calls_def by (intro rooted_fold rooted_js_api_call)

lemma rooted_js_line: "rooted r g \<Longrightarrow> rooted r (js_line lib lang r ln line g)"
  unfolding js_line_def
  by (intro rooted_env_uses_of rooted_fold rooted_emit_in rooted_emit_out rooted_js_api_calls
        rooted_js_routes rooted_js_exports rooted_js_imports)

lemma rooted_py_imports: "rooted r g \<Longrightarrow> rooted r (py_imports lib r ln line g)"
  unfolding py_imports_def
  by (rule rooted_fold) (auto split: option.splits intro!: rooted_add_edge_file)

lemma rooted_definition_of: "rooted r g \<Longrightarrow> rooted r (definition_of p nt lang r ln name g)"
  unfolding definition_of_def by (intro rooted_add_edge_file rooted_add_node) simp_all

lemma rooted_py_definitions: "rooted r g \<Longrightarrow> rooted r (py_definitions lib r ln line g)"
  unfolding py_definitions_def Let_def
  by (auto split: option.splits intro!: rooted_definition_of)

lemma rooted_serial_read: "rooted r g \<Longrightarrow> rooted r (serial_read lang r ln g)"
  unfolding serial_read_def by (intro rooted_add_edge_node) simp_all

lemma rooted_serial_write: "rooted r g \<Longrightarrow> rooted r (serial_write lang r ln g)"
  unfolding serial_write_def by (intro rooted_add_edge_file rooted_add_node) simp_all

lemma rooted_py_serial: "rooted r g \<Longrightarrow> rooted r (py_serial lib r ln line g)"
  unfolding py_serial_def Let_def
  by (auto intro!: rooted_serial_read rooted_serial_write)

lemma rooted_py_http_calls: "rooted r g \<Longrightarrow> rooted r (py_http_calls lib r ln line g)"
  unfolding py_http_calls_def by (intro rooted_fold rooted_add_edge_file) simp_all

lemma rooted_py_route: "rooted r g \<Longrightarrow> rooted r (py_route r ln m g)"
  unfolding py_route_def Let_def by (intro rooted_add_edge_file rooted_add_node) simp_all

lemma rooted_py_routes: "rooted r g \<Longrightarrow> rooted r (py_routes lib r ln line g)"
  unfolding py_routes_def by (intro rooted_fold rooted_py_route)

lemma rooted_py_line: "rooted r g \<Longrightarrow> rooted r (py_line lib r ln line g)"
  unfolding py_line_def
  by (intro rooted_env_uses_of rooted_py_routes rooted_py_http_calls rooted_py_serial
        rooted_fold rooted_emit_in rooted_emit_out rooted_py_definitions rooted_py_imports)

lemma rooted_cpp_include: "rooted r g \<Longrightarrow> rooted r (cpp_include lib r ln line g)"
  unfolding cpp_include_def
  by (auto split: option.splits intro!: rooted_add_edge_file rooted_add_node)

lemma rooted_cpp_function: "rooted r g \<Longrightarrow> rooted r (cpp_function lib lang r ln line g)"
  unfolding cpp_function_def
  by (auto split: option.splits intro!: rooted_definition_of)

lemma rooted_cpp_serial: "rooted r g \<Longrightarrow> rooted r (cpp_serial lib lang r ln line g)"
  unfolding cpp_serial_def Let_def
  by (auto intro!: rooted_serial_read rooted_serial_write)

lemma rooted_cpp_http: "rooted r g \<Longrightarrow> rooted r (cpp_http lib r ln line g)"
  unfolding cpp_http_def by (intro rooted_fold rooted_add_edge_file) simp_all

lemma rooted_cpp_line: "rooted r g \<Longrightarrow> rooted r (cpp_line lib lang r ln line g)"
  unfolding cpp_line_def
  by (intro rooted_cpp_http rooted_cpp_serial rooted_fold rooted_emit_in rooted_emit_out
        rooted_cpp_function rooted_cpp_include)

lemma rooted_env_line: "rooted r g \<Longrightarrow> rooted r (env_line lib r ln line g)"
  unfolding env_line_def
  by (auto split: option.splits intro!: rooted_add_edge_file rooted_add_node)

lemma rooted_for_lines:
  assumes "\<And>ln line g. rooted r g \<Longrightarrow> rooted r (body ln line g)" "rooted r g"
  shows "rooted r (for_lines prefix content body g)"
  unfolding for_lines_def
  by (rule rooted_fold) (auto intro: assms)

lemma rooted_add_file_node: "srcs_ok g \<Longrightarrow> rooted r (add_file_node fpath r lang g)"
  by (auto simp: rooted_def srcs_ok_def add_file_node_def add_node_def mk_node_def)

lemma rooted_srcs_ok: "rooted r g \<Longrightarrow> srcs_ok g"
  by (simp add: rooted_def)

lemma srcs_ok_parse_javascript: "srcs_ok g \<Longrightarrow> srcs_ok (parse_javascript lib fpath content r g)"
  unfolding parse_javascript_def Let_def
  by (rule rooted_srcs_ok[of r]) (intro rooted_for_lines rooted_js_line rooted_add_file_node)

lemma srcs_ok_parse_python: "srcs_ok g \<Longrightarrow> srcs_ok (parse_python lib fpath content r g)"
  unfolding parse_python_def
  by (rule rooted_srcs_ok[of r]) (intro rooted_for_lines rooted_py_line rooted_add_file_node)

lemma srcs_ok_parse_cpp_arduino: "srcs_ok g \<Longrightarrow> srcs_ok (parse_cpp_arduino lib fpath content r g)"
  unfolding parse_cpp_arduino_def Let_def
  by (rule rooted_srcs_ok[of r]) (intro rooted_for_lines rooted_cpp_line rooted_add_file_node)

lemma srcs_ok_parse_env_file: "srcs_ok g \<Longrightarrow> srcs_ok (parse_env_file lib fpath content r g)"
  unfolding parse_env_file_def
  by (rule rooted_srcs_ok[of r]) (intro rooted_for_lines rooted_env_line rooted_add_file_node)

lemma rooted_pkg_dependency: "rooted r g \<Longrightarrow> rooted r (pkg_dependency r dt name g)"
  unfolding pkg_dependency_def by (intro rooted_add_edge_file rooted_add_node) simp_all

lemma rooted_pkg_script: "rooted r g \<Longrightarrow> rooted r (pkg_script r sc g)"
  unfolding pkg_script_def by (rule rooted_add_node)

lemma rooted_pkg_dependencies:
  "rooted r g \<Longrightarrow> pkg_dependencies r dt deps g = Inr g' \<Longrightarrow> rooted r g'"
  by (auto simp: pkg_dependencies_def split: iter_outcome.splits
           intro!: rooted_fold rooted_pkg_dependency)

lemma rooted_parse_config_files:
  assumes "srcs_ok g" "parse_config_files lib fpath content r g = Inr g'"
  shows "rooted r g'"
proof -
  have g0: "rooted r (add_file_node fpath r ''config'' g)"
    by (rule rooted_add_file_node[OF assms(1)])
  show ?thesis
  proof (cases "path_name fpath = ''package.json''")
    case False
    with assms(2) g0 show ?thesis
      by (simp add: parse_config_files_def Let_def)
  next
    case True
    show ?thesis
    proof (cases "json_loads lib content")
      case JSONDecodeError
      with True assms(2) g0 show ?thesis
        by (simp add: parse_config_files_def Let_def)
    next
      case JsonOtherError
      with True assms(2) show ?thesis
        by (simp add: parse_config_files_def Let_def)
    next
      case (JsonValue pkg)
      show ?thesis
      proof (cases pkg)
        case NotADict
        with JsonValue True assms(2) show ?thesis
          by (simp add: parse_config_files_def Let_def)
      next
        case (PkgDict deps dev scripts)
        with JsonValue True assms(2) obtain g1 g2 scs where
          g1: "pkg_dependencies r ''dependencies'' deps (add_file_node fpath r ''config'' g) = Inr g1"
          and g2: "pkg_dependencies r ''devDependencies'' dev g1 = Inr g2"
          and sc: "scripts = Items scs" and g': "g' = fold (pkg_script r) scs g2"
          by (auto simp: parse_config_files_def Let_def split: sum.splits items_outcome.splits)
        have "rooted r g1" by (rule rooted_pkg_dependencies[OF g0 g1])
        then have "rooted r g2" by (rule rooted_pkg_dependencies[OF _ g2])
        then show ?thesis
          unfolding g' by (intro rooted_fold rooted_pkg_script)
      qed
    qed
  qed
qed

lemma srcs_ok_parse_file:
  assumes "srcs_ok g" "parse_file lib fpath content r g = Inr g'"
  shows "srcs_ok g'"
proof -
  consider "g' = parse_env_file lib fpath content r g"
    | "g' = parse_javascript lib fpath content r g"
    | "g' = parse_python lib fpath content r g"
    | "g' = parse_cpp_arduino lib fpath content r g"
    | "parse_config_files lib fpath content r g = Inr g'"
    | "g' = g"
    using assms(2) unfolding parse_file_def Let_def
    by (metis sum.inject(2))
  then show ?thesis
  proof cases
    case 5
    then show ?thesis
      using rooted_parse_config_files[OF assms(1)] rooted_srcs_ok by blast
  qed (simp_all add: assms(1) srcs_ok_parse_env_file srcs_ok_parse_javascript
         srcs_ok_parse_python srcs_ok_parse_cpp_arduino)
qed

lemma srcs_ok_process_file:
  "srcs_ok g \<Longrightarrow> process_file lib f g = Inr g' \<Longrightarrow> srcs_ok g'"
  by (auto simp: process_file_def split: sum.splits if_splits dest: srcs_ok_parse_file)

lemma srcs_ok_process_files:
  "srcs_ok g \<Longrightarrow> process_files lib fs g = Inr g' \<Longrightarrow> srcs_ok g'"
proof (induction fs arbitrary: g)
  case Nil
  then show ?case by simp
next
  case (Cons f fs)
  then show ?case
    by (auto split: sum.splits dest: srcs_ok_process_file)
qed

text \<open>
  Claim C9. In every graph that \<open>build_graph\<close> returns, the source id of every edge is
  the id of a node of the graph. Nothing is required of the targets. This holds for
  every project tree, every matcher and every order in which the sets are walked.
\<close>

theorem edge_sources_are_nodes:
  assumes "build_graph lib iter project_root = Inr g"
  shows "\<forall>e\<in>set (edges g). source e \<in> fst ` set (nodes g)"
proof -
  obtain g0 where g0: "process_files lib (discover_files project_root) empty_graph = Inr g0"
    and g: "g = detect_bridges iter g0"
    using assms by (auto simp: build_graph_def split: sum.splits)
  have "srcs_ok empty_graph"
    by (simp add: srcs_ok_def empty_graph_def)
  then have "srcs_ok g0"
    using g0 by (rule srcs_ok_process_files)
  then show ?thesis
    by (simp add: g detect_bridges_eq srcs_ok_def)
qed

theorem edge_sources_are_nodes_witness:
  "build_graph demo_lib remdups env_project = Inr env_result
   \<and> source ` set (edges env_result) \<subseteq> fst ` set (nodes env_result)"
  using edge_sources_are_nodes[OF env_project_graph] env_project_graph
  by auto

section \<open>Unmatched calls and undefined variables\<close>

lemma env_ok_add_node: "env_ok g \<Longrightarrow> env_ok (add_node n g)"
  by (simp add: env_ok_def add_node_def)

lemma env_ok_add_edge: "env_ok g \<Longrightarrow> env_edge_ok e \<Longrightarrow> env_ok (add_edge e g)"
  by (simp add: env_ok_def add_edge_def)

lemma env_ok_fold:
  "(\<And>x g. x \<in> set xs \<Longrightarrow> env_ok g \<Longrightarrow> env_ok (f x g)) \<Longrightarrow> env_ok g \<Longrightarrow> env_ok (fold f xs g)"
  by (induction xs arbitrary: g) auto

lemma env_edge_ok_other:
  "ty \<noteq> ''env_uses'' \<Longrightarrow> ty \<noteq> ''env_defines'' \<Longrightarrow> env_edge_ok (mk_edge s t ty f ln md)"
  by (simp add: env_edge_ok_def)

lemma env_edge_ok_env: "CHR '':'' \<notin> set v \<Longrightarrow> env_edge_ok (mk_edge s (''env:'' @ v) ty f ln md)"
  by (simp add: env_edge_ok_def)

lemma env_ok_emit_out:
  "et \<noteq> ''env_uses'' \<Longrightarrow> et \<noteq> ''env_defines'' \<Longrightarrow> env_ok g \<Longrightarrow>
   env_ok (emit_out p nt et lang r ln name g)"
  unfolding emit_out_def by (intro env_ok_add_edge env_ok_add_node env_edge_ok_other)

lemma env_ok_emit_in:
  "et \<noteq> ''env_uses'' \<Longrightarrow> et \<noteq> ''env_defines'' \<Longrightarrow> env_ok g \<Longrightarrow>
   env_ok (emit_in p nt et lang r ln name g)"
  unfolding emit_in_def by (intro env_ok_add_edge env_ok_add_node env_edge_ok_other)

lemma env_ok_env_use: "CHR '':'' \<notin> set var \<Longrightarrow> env_ok g \<Longrightarrow> env_ok (env_use r ln var g)"
  unfolding env_use_def by (intro env_ok_add_edge env_ok_add_node env_edge_ok_env)

lemma env_ok_env_uses_of:
  assumes "env_names_no_colon lib"
    and "set pats \<subseteq> {JS_ENV_DOT, JS_ENV_INDEX, JS_ENV_META, PY_ENVIRON, PY_GETENV}"
    and "env_ok g"
  shows "env_ok (env_uses_of lib pats r ln line g)"
  unfolding env_uses_of_def
proof (intro env_ok_fold env_ok_env_use assms(3))
  fix pat m
  assume "pat \<in> set pats" "m \<in> set (re_finditer lib pat line)"
  with assms(1,2) show "CHR '':'' \<notin> set (fst m)"
    unfolding env_names_no_colon_def by blast
qed

lemma env_ok_js_imports: "env_ok g \<Longrightarrow> env_ok (js_imports lib r ln line g)"
  unfolding js_imports_def by (intro env_ok_fold env_ok_add_edge env_edge_ok_other) simp_all

lemma env_ok_js_export: "env_ok g \<Longrightarrow> env_ok (js_export lang r ln name g)"
  unfolding js_export_def
  by (auto intro!: env_ok_add_edge env_ok_add_node env_edge_ok_other)

lemma env_ok_js_exports: "env_ok g \<Longrightarrow> env_ok (js_exports lib lang r ln line g)"
  unfolding js_exports_def by (intro env_ok_fold env_ok_js_export)

lemma env_ok_js_route: "env_ok g \<Longrightarrow> env_ok (js_route lang r ln m g)"
  unfolding js_route_def Let_def
  by (intro env_ok_add_edge env_ok_add_node env_edge_ok_other) simp_all

lemma env_ok_js_routes: "env_ok g \<Longrightarrow> env_ok (js_routes lib lang r ln line g)"
  unfolding js_routes_def by (intro env_ok_fold env_ok_js_route)

lemma env_ok_js_api_call: "env_ok g \<Longrightarrow> env_ok (js_api_call d r ln m g)"
  unfolding js_api_call_def Let_def by (intro env_ok_add_edge env_edge_ok_other) simp_all

lemma env_ok_js_api_calls: "env_ok g \<Longrightarrow> env_ok (js_api_calls lib r ln line g)"
  unfolding js_api_calls_def by (intro env_ok_fold env_ok_js_api_call)

lemma env_ok_js_line:
  assumes "env_names_no_colon lib" "env_ok g"
  shows "env_ok (js_line lib lang r ln line g)"
  unfolding js_line_def
  by (intro env_ok_env_uses_of[OF assms(1)] env_ok_fold env_ok_emit_in env_ok_emit_out
        env_ok_js_api_calls env_ok_js_routes env_ok_js_exports env_ok_js_imports assms(2))
     simp_all

lemma env_ok_py_imports: "env_ok g \<Longrightarrow> env_ok (py_imports lib r ln line g)"
  unfolding py_imports_def
  by (rule env_ok_fold) (auto split: option.splits intro!: env_ok_add_edge env_edge_ok_other)

lemma env_ok_definition_of: "env_ok g \<Longrightarrow> env_ok (definition_of p nt lang r ln name g)"
  unfolding definition_of_def
  by (intro env_ok_add_edge env_ok_add_node env_edge_ok_other) simp_all

lemma env_ok_py_definitions: "env_ok g \<Longrightarrow> env_ok (py_definitions lib r ln line g)"
  unfolding py_definitions_def Let_def
  by (auto split: option.splits intro!: env_ok_definition_of)

lemma env_ok_serial_read: "env_ok g \<Longrightarrow> env_ok (serial_read lang r ln g)"
  unfolding serial_read_def
  by (intro env_ok_add_edge env_ok_add_node env_edge_ok_other) simp_all

lemma env_ok_serial_write: "env_ok g \<Longrightarrow> env_ok (serial_write lang r ln g)"
  unfolding serial_write_def
  by (intro env_ok_add_edge env_ok_add_node env_edge_ok_other) simp_all

lemma env_ok_py_serial: "env_ok g \<Longrightarrow> env_ok (py_serial lib r ln line g)"
  unfolding py_serial_def Let_def
  by (auto intro!: env_ok_serial_read env_ok_serial_write)

lemma env_ok_py_http_calls: "env_ok g \<Longrightarrow> env_ok (py_http_calls lib r ln line g)"
  unfolding py_http_calls_def by (intro env_ok_fold env_ok_add_edge env_edge_ok_other) simp_all

lemma env_ok_py_route: "env_ok g \<Longrightarrow> env_ok (py_route r ln m g)"
  unfolding py_route_def Let_def
  by (intro env_ok_add_edge env_ok_add_node env_edge_ok_other) simp_all

lemma env_ok_py_routes: "env_ok g \<Longrightarrow> env_ok (py_routes lib r ln line g)"
  unfolding py_routes_def by (intro env_ok_fold env_ok_py_route)

lemma env_ok_py_line:
  assumes "env_names_no_colon lib" "env_ok g"
  shows "env_ok (py_line lib r ln line g)"
  unfolding py_line_def
  by (intro env_ok_env_uses_of[OF assms(1)] env_ok_py_routes env_ok_py_http_calls
        env_ok_py_serial env_ok_fold env_ok_emit_in env_ok_emit_out env_ok_py_definitions
        env_ok_py_imports assms(2))
     simp_all

lemma env_ok_cpp_include: "env_ok g \<Longrightarrow> env_ok (cpp_include lib r ln line g)"
  unfolding cpp_include_def
  by (auto split: option.splits intro!: env_ok_add_edge env_ok_add_node env_edge_ok_other)

lemma env_ok_cpp_function: "env_ok g \<Longrightarrow> env_ok (cpp_function lib lang r ln line g)"
  unfolding cpp_function_def
  by (auto split: option.splits intro!: env_ok_definition_of)

lemma env_ok_cpp_serial: "env_ok g \<Longrightarrow> env_ok (cpp_serial lib lang r ln line g)"
  unfolding cpp_serial_def Let_def
  by (auto intro!: env_ok_serial_read env_ok_serial_write)

lemma env_ok_cpp_http: "env_ok g \<Longrightarrow> env_ok (cpp_http lib r ln line g)"
  unfolding cpp_http_def by (intro env_ok_fold env_ok_add_edge env_edge_ok_other) simp_all

lemma env_ok_cpp_line: "env_ok g \<Longrightarrow> env_ok (cpp_line lib lang r ln line g)"
  unfolding cpp_line_def
  by (intro env_ok_cpp_http env_ok_cpp_serial env_ok_fold env_ok_emit_in env_ok_emit_out
        env_ok_cpp_function env_ok_cpp_include)
     simp_all

lemma env_ok_env_line:
  assumes "env_names_no_colon lib" "env_ok g"
  shows "env_ok (env_line lib r ln line g)"
proof (cases "re_match lib ENV_ASSIGN (strip line)")
  case None
  then show ?thesis by (simp add: env_line_def assms(2))
next
  case (Some m)
  with assms(1) have "CHR '':'' \<notin> set (fst m)"
    unfolding env_names_no_colon_def by blast
  then have "env_edge_ok (mk_edge (''file:'' @ r) (''env:'' @ fst m) ''env_defines'' r ln [])"
    by (rule env_edge_ok_env)
  then have "env_ok (add_edge (mk_edge (''file:'' @ r) (''env:'' @ fst m) ''env_defines'' r ln [])
                (add_node (mk_node (''env:'' @ fst m) r (fst m) ''variable'' ''config'' ln []) g))"
    by (intro env_ok_add_edge env_ok_add_node assms(2))
  with Some show ?thesis
    by (simp add: env_line_def)
qed

lemma env_ok_for_lines:
  assumes "\<And>ln line g. env_ok g \<Longrightarrow> env_ok (body ln line g)" "env_ok g"
  shows "env_ok (for_lines prefix content body g)"
  unfolding for_lines_def
  by (rule env_ok_fold) (auto intro: assms)

lemma env_ok_add_file_node: "env_ok g \<Longrightarrow> env_ok (add_file_node fpath r lang g)"
  unfolding add_file_node_def by (rule env_ok_add_node)

lemma env_ok_pkg_dependency: "env_ok g \<Longrightarrow> env_ok (pkg_dependency r dt name g)"
  unfolding pkg_dependency_def
  by (intro env_ok_add_edge env_ok_add_node env_edge_ok_other) simp_all

lemma env_ok_pkg_dependencies:
  "env_ok g \<Longrightarrow> pkg_dependencies r dt deps g = Inr g' \<Longrightarrow> env_ok g'"
  by (auto simp: pkg_dependencies_def split: iter_outcome.splits
           intro!: env_ok_fold env_ok_pkg_dependency)

lemma env_ok_pkg_script: "env_ok g \<Longrightarrow> env_ok (pkg_script r sc g)"
  unfolding pkg_script_def by (rule env_ok_add_node)

lemma env_ok_parse_config_files:
  assumes "env_ok g" "parse_config_files lib fpath content r g = Inr g'"
  shows "env_ok g'"
proof -
  have g0: "env_ok (add_file_node fpath r ''config'' g)"
    by (rule env_ok_add_file_node[OF assms(1)])
  show ?thesis
  proof (cases "path_name fpath = ''package.json''")
    case False
    with assms(2) g0 show ?thesis
      by (simp add: parse_config_files_def Let_def)
  next
    case True
    show ?thesis
    proof (cases "json_loads lib content")
      case JSONDecodeError
      with True assms(2) g0 show ?thesis
        by (simp add: parse_config_files_def Let_def)
    next
      case JsonOtherError
      with True assms(2) show ?thesis
        by (simp add: parse_config_files_def Let_def)
    next
      case (JsonValue pkg)
      show ?thesis
      proof (cases pkg)
        case NotADict
        with JsonValue True assms(2) show ?thesis
          by (simp add: parse_config_files_def Let_def)
      next
        case (PkgDict deps dev scripts)
        with JsonValue True assms(2) obtain g1 g2 scs where
          g1: "pkg_dependencies r ''dependencies'' deps (add_file_node fpath r ''config'' g) = Inr g1"
          and g2: "pkg_dependencies r ''devDependencies'' dev g1 = Inr g2"
          and sc: "scripts = Items scs" and g': "g' = fold (pkg_script r) scs g2"
          by (auto simp: parse_config_files_def Let_def split: sum.splits items_outcome.splits)
        have "env_ok g1" by (rule env_ok_pkg_dependencies[OF g0 g1])
        then have "env_ok g2" by (rule env_ok_pkg_dependencies[OF _ g2])
        then show ?thesis
          unfolding g' by (intro env_ok_fold env_ok_pkg_script)
      qed
    qed
  qed
qed

lemma env_ok_parse_file:
  assumes "env_names_no_colon lib" "env_ok g" "parse_file lib fpath content r g = Inr g'"
  shows "env_ok g'"
proof -
  consider "g' = parse_env_file lib fpath content r g"
    | "g' = parse_javascript lib fpath content r g"
    | "g' = parse_python lib fpath content r g"
    | "g' = parse_cpp_arduino lib fpath content r g"
    | "parse_config_files lib fpath content r g = Inr g'"
    | "g' = g"
    using assms(3) unfolding parse_file_def Let_def
    by (metis sum.inject(2))
  then show ?thesis
  proof cases
    case 1
    then show ?thesis
      unfolding parse_env_file_def
      by (simp add: env_ok_for_lines env_ok_env_line[OF assms(1)] env_ok_add_file_node assms(2))
  next
    case 2
    then show ?thesis
      unfolding parse_javascript_def Let_def
      by (simp add: env_ok_for_lines env_ok_js_line[OF assms(1)] env_ok_add_file_node assms(2))
  next
    case 3
    then show ?thesis
      unfolding parse_python_def
      by (simp add: env_ok_for_lines env_ok_py_line[OF assms(1)] env_ok_add_file_node assms(2))
  next
    case 4
    then show ?thesis
      unfolding parse_cpp_arduino_def Let_def
      by (simp add: env_ok_for_lines env_ok_cpp_line env_ok_add_file_node assms(2))
  next
    case 5
    then show ?thesis
      by (rule env_ok_parse_config_files[OF assms(2)])
  next
    case 6
    then show ?thesis by (simp add: assms(2))
  qed
qed

lemma env_ok_process_files:
  assumes "env_names_no_colon lib"
  shows "env_ok g \<Longrightarrow> process_files lib fs g = Inr g' \<Longrightarrow> env_ok g'"
proof (induction fs arbitrary: g)
  case Nil
  then show ?case by simp
next
  case (Cons f fs)
  from Cons.prems(2) obtain g1 where g1: "process_file lib f g = Inr g1"
    and rest: "process_files lib fs g1 = Inr g'"
    by (auto split: sum.splits)
  have "env_ok g1"
    using g1 Cons.prems(1) env_ok_parse_file[OF assms Cons.prems(1)]
    by (auto simp: process_file_def split: sum.splits if_splits)
  then show ?case
    using rest by (rule Cons.IH)
qed

lemma dd_get_dd_append:
  "dd_get (dd_append t k x) k' = (if k' = k then dd_get t k @ [x] else dd_get t k')"
  by (induction t k x rule: dd_append.induct) (auto simp: dd_get_def)

lemma keys_dd_append: "fst ` set (dd_append t k x) = insert k (fst ` set t)"
  by (induction t k x rule: dd_append.induct) auto

lemma dd_get_keys: "dd_get t k \<noteq> [] \<Longrightarrow> k \<in> fst ` set t"
  by (cases "map_of t k") (auto simp: dd_get_def dest: map_of_SomeD intro: rev_image_eqI)

lemma startswith_append: "startswith s p \<Longrightarrow> \<exists>r. s = p @ r"
  unfolding startswith_def by (metis append_take_drop_id)

lemma no_colon_no_prefix: "CHR '':'' \<notin> set v \<Longrightarrow> \<not> startswith v ''env:''"
  by (auto dest!: startswith_append)

lemma str_replace_no_colon: "CHR '':'' \<notin> set v \<Longrightarrow> str_replace ''env:'' '''' v = v"
proof (induction v)
  case Nil
  then show ?case by simp
next
  case (Cons c cs)
  have "\<not> startswith (c # cs) ''env:''" by (rule no_colon_no_prefix[OF Cons.prems])
  then show ?case using Cons by simp
qed

lemma str_replace_env: "CHR '':'' \<notin> set v \<Longrightarrow> str_replace ''env:'' '''' (''env:'' @ v) = v"
  using str_replace_no_colon[of v] by (simp add: startswith_def)

lemma no_colon_not_undefined: "CHR '':'' \<notin> set v \<Longrightarrow> \<not> startswith v ''UNDEFINED:''"
  by (auto dest!: startswith_append)

lemma lower_char_not_U: "lower_char c \<noteq> CHR ''U''"
  by (simp add: lower_char_def upper_letters_def lower_letters_def latin1_upper_def latin1_lower_def)

lemma normalize_not_unmatched: "\<not> startswith (normalize_http_path p) ''UNMATCHED:''"
proof
  assume "startswith (normalize_http_path p) ''UNMATCHED:''"
  then obtain s r where s: "map lower_char s = ''UNMATCHED:'' @ r"
    unfolding normalize_http_path_def lower_def by (blast dest: startswith_append)
  then obtain c cs where "s = c # cs" by (cases s) auto
  with s have "lower_char c = CHR ''U''" by simp
  then show False by (simp add: lower_char_not_U)
qed

lemma env_users_aux:
  "dd_get (snd (fold (env_step g) es du)) v \<noteq> [] \<longleftrightarrow>
     dd_get (snd du) v \<noteq> [] \<or>
     (\<exists>e\<in>set es. edge_type e = ''env_uses'' \<and> str_replace ''env:'' '''' (target e) = v)"
  by (induction es arbitrary: du) (auto simp: env_step_def dd_get_dd_append)

lemma env_definers_aux:
  "dd_get (fst (fold (env_step g) es du)) v \<noteq> [] \<longleftrightarrow>
     dd_get (fst du) v \<noteq> [] \<or>
     (\<exists>e\<in>set es. edge_type e = ''env_defines'' \<and> str_replace ''env:'' '''' (target e) = v)"
  by (induction es arbitrary: du) (auto simp: env_step_def dd_get_dd_append)

lemma env_ok_target:
  assumes "env_ok g" and "e \<in> set (edges g)"
    and "edge_type e = ''env_uses'' \<or> edge_type e = ''env_defines''"
  obtains v where "target e = ''env:'' @ v" and "CHR '':'' \<notin> set v"
  using assms unfolding env_ok_def env_edge_ok_def by blast

lemma env_var_of_target:
  assumes "env_ok g" and "e \<in> set (edges g)"
    and "edge_type e = ''env_uses'' \<or> edge_type e = ''env_defines''"
  shows "str_replace ''env:'' '''' (target e) = v \<longleftrightarrow> target e = ''env:'' @ v"
proof -
  from assms obtain w where w: "target e = ''env:'' @ w" "CHR '':'' \<notin> set w"
    by (rule env_ok_target)
  then have "str_replace ''env:'' '''' (target e) = w"
    using str_replace_env[of w] by simp
  with w show ?thesis by auto
qed

lemma env_users_iff:
  assumes "env_ok g"
  shows "dd_get (snd (env_tables g)) v \<noteq> [] \<longleftrightarrow>
         (\<exists>e\<in>set (edges g). edge_type e = ''env_uses'' \<and> target e = ''env:'' @ v)"
  unfolding env_tables_def env_users_aux
  using env_var_of_target[OF assms] by (auto simp: dd_get_def)

lemma env_definers_iff:
  assumes "env_ok g"
  shows "dd_get (fst (env_tables g)) v \<noteq> [] \<longleftrightarrow>
         (\<exists>e\<in>set (edges g). edge_type e = ''env_defines'' \<and> target e = ''env:'' @ v)"
  unfolding env_tables_def env_definers_aux
  using env_var_of_target[OF assms] by (auto simp: dd_get_def)

lemma env_user_no_colon:
  assumes "env_ok g" and "dd_get (snd (env_tables g)) v \<noteq> []"
  shows "CHR '':'' \<notin> set v"
proof -
  from assms obtain e where e: "e \<in> set (edges g)" "edge_type e = ''env_uses''"
    "target e = ''env:'' @ v"
    by (auto simp: env_users_iff)
  then obtain w where "target e = ''env:'' @ w" "CHR '':'' \<notin> set w"
    using env_ok_target[OF assms(1) e(1)] by blast
  with e show ?thesis by simp
qed

lemma env_emit_bridges:
  "bridges (env_emit D U k empty_graph) =
     (if dd_get U k \<noteq> [] \<and> dd_get D k = [] then
        [\<lparr>bridge_type = ''env'', bridge_key = ''UNDEFINED:'' @ k, producers = [],
          consumers = dd_get U k\<rparr>]
      else if dd_get D k \<noteq> [] \<and> dd_get U k \<noteq> []
              \<and> 1 < card (set (map ent_file (dd_get D k)) \<union> set (map ent_file (dd_get U k)))
      then [\<lparr>bridge_type = ''env'', bridge_key = k, producers = dd_get D k,
             consumers = dd_get U k\<rparr>]
      else [])"
  by (simp add: env_emit_def Let_def add_bridge_def)

lemma env_undefined_shape:
  assumes "env_ok g" and "b \<in> set (env_new iter g)"
    and "startswith (bridge_key b) ''UNDEFINED:''"
  shows "producers b = [] \<and> consumers b \<noteq> []"
proof -
  from assms(2) obtain k where
    k: "b \<in> set (bridges (env_emit (fst (env_tables g)) (snd (env_tables g)) k empty_graph))"
    by (auto simp: env_new_def)
  show ?thesis
  proof (cases "dd_get (snd (env_tables g)) k \<noteq> [] \<and> dd_get (fst (env_tables g)) k = []")
    case True
    with k show ?thesis by (simp add: env_emit_bridges)
  next
    case False
    with k have "bridge_key b = k" and "dd_get (snd (env_tables g)) k \<noteq> []"
      by (auto simp: env_emit_bridges split: if_splits)
    then have "\<not> startswith (bridge_key b) ''UNDEFINED:''"
      using env_user_no_colon[OF assms(1)] no_colon_not_undefined by blast
    with assms(3) show ?thesis by simp
  qed
qed

lemma env_undefined_iff:
  assumes "env_ok g" and "set_iter_ok iter"
  shows "(\<exists>b\<in>set (env_new iter g). bridge_key b = ''UNDEFINED:'' @ name) \<longleftrightarrow>
         (\<exists>e\<in>set (edges g). edge_type e = ''env_uses'' \<and> target e = ''env:'' @ name)
         \<and> \<not> (\<exists>e\<in>set (edges g). edge_type e = ''env_defines'' \<and> target e = ''env:'' @ name)"
    (is "?L \<longleftrightarrow> ?R")
proof -
  let ?D = "fst (env_tables g)" and ?U = "snd (env_tables g)"
  have R: "?R \<longleftrightarrow> dd_get ?U name \<noteq> [] \<and> dd_get ?D name = []"
    using env_users_iff[OF assms(1), of name] env_definers_iff[OF assms(1), of name] by blast
  have keys: "set (iter (map fst ?D @ map fst ?U)) = fst ` set ?D \<union> fst ` set ?U"
    using assms(2) by (simp add: set_iter_ok_def)
  show ?thesis
  proof
    assume ?L
    then obtain b k where b: "b \<in> set (bridges (env_emit ?D ?U k empty_graph))"
      and key: "bridge_key b = ''UNDEFINED:'' @ name"
      by (auto simp: env_new_def)
    show ?R
    proof (cases "dd_get ?U k \<noteq> [] \<and> dd_get ?D k = []")
      case True
      with b key have "k = name" by (simp add: env_emit_bridges)
      with True R show ?thesis by simp
    next
      case False
      with b have "bridge_key b = k" and "dd_get ?U k \<noteq> []"
        by (auto simp: env_emit_bridges split: if_splits)
      then have "\<not> startswith (bridge_key b) ''UNDEFINED:''"
        using env_user_no_colon[OF assms(1)] no_colon_not_undefined by blast
      with key show ?thesis by (simp add: startswith_def)
    qed
  next
    assume ?R
    with R have u: "dd_get ?U name \<noteq> []" and d: "dd_get ?D name = []" by simp_all
    from u have "name \<in> set (iter (map fst ?D @ map fst ?U))"
      unfolding keys by (blast dest: dd_get_keys)
    moreover have "\<lparr>bridge_type = ''env'', bridge_key = ''UNDEFINED:'' @ name, producers = [],
          consumers = dd_get ?U name\<rparr> \<in> set (bridges (env_emit ?D ?U name empty_graph))"
      using u d by (simp add: env_emit_bridges)
    ultimately show ?L
      unfolding env_new_def by force
  qed
qed

lemma http_callers_keys:
  "k \<in> fst ` set (snd (fold (http_step g) es dc)) \<Longrightarrow>
   k \<in> fst ` set (snd dc) \<or> (\<exists>p. k = normalize_http_path p)"
proof (induction es arbitrary: dc)
  case Nil
  then show ?case by simp
next
  case (Cons e es)
  from Cons.IH[OF Cons.prems[simplified]]
  show ?case
    by (auto simp: http_step_def keys_dd_append Let_def split: option.splits if_splits)
qed

lemma http_emit_bridges:
  "bridges (http_emit D C k empty_graph) =
     (if dd_get D k \<noteq> [] \<and> dd_get C k \<noteq> [] then
        [\<lparr>bridge_type = ''http'', bridge_key = k, producers = dd_get D k,
          consumers = dd_get C k\<rparr>]
      else if dd_get C k \<noteq> [] \<and> dd_get D k = [] then
        [\<lparr>bridge_type = ''http'', bridge_key = ''UNMATCHED:'' @ k, producers = [],
          consumers = dd_get C k\<rparr>]
      else [])"
  by (simp add: http_emit_def Let_def add_bridge_def)

lemma http_unmatched_shape:
  assumes "b \<in> set (http_new iter g)" and "startswith (bridge_key b) ''UNMATCHED:''"
  shows "producers b = [] \<and> consumers b \<noteq> []"
proof -
  let ?D = "fst (http_tables g)" and ?C = "snd (http_tables g)"
  from assms(1) obtain k where k: "b \<in> set (bridges (http_emit ?D ?C k empty_graph))"
    by (auto simp: http_new_def)
  show ?thesis
  proof (cases "dd_get ?D k \<noteq> [] \<and> dd_get ?C k \<noteq> []")
    case True
    with k have key: "bridge_key b = k" by (simp add: http_emit_bridges)
    from True have "k \<in> fst ` set ?C" by (blast dest: dd_get_keys)
    then obtain p where "k = normalize_http_path p"
      unfolding http_tables_def using http_callers_keys[of k g "edges g" "([], [])"] by auto
    with key assms(2) show ?thesis by (simp add: normalize_not_unmatched)
  next
    case False
    with k show ?thesis by (auto simp: http_emit_bridges split: if_splits)
  qed
qed

lemma env_ok_built:
  assumes "build_graph lib iter project_root = Inr g" and "env_names_no_colon lib"
  obtains g0 where "env_ok g0" and "g = detect_bridges iter g0"
proof -
  from assms(1) obtain g0 where g0: "process_files lib (discover_files project_root) empty_graph = Inr g0"
    and g: "g = detect_bridges iter g0"
    by (auto simp: build_graph_def split: sum.splits)
  have "env_ok empty_graph" by (simp add: env_ok_def empty_graph_def)
  then have "env_ok g0" using g0 by (rule env_ok_process_files[OF assms(2)])
  then show ?thesis using g that by blast
qed

text \<open>
  Claim C5. In every graph that \<open>build_graph\<close> returns, an http bridge whose key begins with
  \<open>UNMATCHED:\<close> and an env bridge whose key begins with \<open>UNDEFINED:\<close> have no producer and at
  least one consumer; and an env bridge with the key \<open>UNDEFINED:<name>\<close> is in the graph
  exactly when some \<open>env_uses\<close> edge and no \<open>env_defines\<close> edge points to \<open>env:<name>\<close>. The
  order in which the sets are walked is any admissible one; the names that the patterns
  capture contain no colon, as \<open>\w+\<close> promises.
\<close>

theorem unmatched_undefined_bridges:
  assumes "build_graph lib iter project_root = Inr g"
    and "set_iter_ok iter" and "env_names_no_colon lib"
  shows "(\<forall>b\<in>set (bridges g). bridge_type b = ''http'' \<and> startswith (bridge_key b) ''UNMATCHED:''
            \<longrightarrow> producers b = [] \<and> consumers b \<noteq> [])
       \<and> (\<forall>b\<in>set (bridges g). bridge_type b = ''env'' \<and> startswith (bridge_key b) ''UNDEFINED:''
            \<longrightarrow> producers b = [] \<and> consumers b \<noteq> [])
       \<and> (\<forall>name. (\<exists>b\<in>set (bridges g). bridge_type b = ''env'' \<and> bridge_key b = ''UNDEFINED:'' @ name)
            \<longleftrightarrow> (\<exists>e\<in>set (edges g). edge_type e = ''env_uses'' \<and> target e = ''env:'' @ name)
               \<and> \<not> (\<exists>e\<in>set (edges g). edge_type e = ''env_defines'' \<and> target e = ''env:'' @ name))"
proof -
  from assms(1,3) obtain g0 where ok: "env_ok g0" and g: "g = detect_bridges iter g0"
    by (rule env_ok_built)
  from ok have e: "bridges g0 = []" by (simp add: env_ok_def)
  have bs: "set (bridges g) = set (mqtt_new iter g0) \<union> set (http_new iter g0) \<union> set (ws_new iter g0)
              \<union> set (serial_new g0) \<union> set (env_new iter g0)"
    and es: "edges g = edges g0"
    by (auto simp: g detect_bridges_eq e)
  have http: "b \<in> set (http_new iter g0)" if "b \<in> set (bridges g)" "bridge_type b = ''http''" for b
    using that unfolding bs
    by (auto dest: mqtt_new_type ws_new_type serial_new_type env_new_type)
  have env: "b \<in> set (bridges g) \<and> bridge_type b = ''env'' \<longleftrightarrow> b \<in> set (env_new iter g0)" for b
    unfolding bs
    by (auto dest: mqtt_new_type ws_new_type serial_new_type env_new_type http_new_type)
  have p1: "\<forall>b\<in>set (bridges g). bridge_type b = ''http'' \<and> startswith (bridge_key b) ''UNMATCHED:''
            \<longrightarrow> producers b = [] \<and> consumers b \<noteq> []"
    using http http_unmatched_shape by blast
  have p2: "\<forall>b\<in>set (bridges g). bridge_type b = ''env'' \<and> startswith (bridge_key b) ''UNDEFINED:''
            \<longrightarrow> producers b = [] \<and> consumers b \<noteq> []"
    using env env_undefined_shape[OF ok] by blast
  have p3: "(\<exists>b\<in>set (bridges g). bridge_type b = ''env'' \<and> bridge_key b = ''UNDEFINED:'' @ name)
            \<longleftrightarrow> (\<exists>e\<in>set (edges g). edge_type e = ''env_uses'' \<and> target e = ''env:'' @ name)
               \<and> \<not> (\<exists>e\<in>set (edges g). edge_type e = ''env_defines'' \<and> target e = ''env:'' @ name)" for name
  proof -
    have "(\<exists>b\<in>set (bridges g). bridge_type b = ''env'' \<and> bridge_key b = ''UNDEFINED:'' @ name)
          \<longleftrightarrow> (\<exists>b\<in>set (env_new iter g0). bridge_key b = ''UNDEFINED:'' @ name)"
      using env by blast
    then show ?thesis
      unfolding es env_undefined_iff[OF ok assms(2), of name] .
  qed
  from p1 p2 p3 show ?thesis by blast
qed

theorem unmatched_undefined_bridges_witness:
  "set_iter_ok remdups \<and> env_names_no_colon demo_lib
   \<and> build_graph demo_lib remdups env_project = Inr env_result
   \<and> (\<exists>b\<in>set (bridges env_result). bridge_type b = ''env'' \<and> bridge_key b = ''UNDEFINED:PORT''
          \<and> producers b = [] \<and> consumers b \<noteq> [])
   \<and> (\<exists>e\<in>set (edges env_result). edge_type e = ''env_uses'' \<and> target e = ''env:PORT'')
   \<and> \<not> (\<exists>e\<in>set (edges env_result). edge_type e = ''env_defines'' \<and> target e = ''env:PORT'')"
proof -
  have ok: "set_iter_ok remdups"
    by (simp add: set_iter_ok_def)
  have nc: "env_names_no_colon demo_lib"
    by (auto simp: env_names_no_colon_def demo_lib_def demo_finditer_def split: if_splits)
  have b: "\<exists>b\<in>set (bridges env_result). bridge_type b = ''env'' \<and> bridge_key b = ''UNDEFINED:'' @ ''PORT''"
    by (simp add: env_result_def)
  have s: "\<forall>b\<in>set (bridges env_result). bridge_key b = ''UNDEFINED:PORT'' \<longrightarrow> startswith (bridge_key b) ''UNDEFINED:''"
    by (simp add: startswith_def)
  from unmatched_undefined_bridges[OF env_project_graph ok nc] b s ok nc env_project_graph
  show ?thesis
    by (simp only: append.simps) blast
qed

section \<open>Configuration files that no extractor reads\<close>

lemma edge_file_mk_edge [simp]: "edge_file (mk_edge s t ty f ln md) = f"
  by (simp add: mk_edge_def)

lemma node_file_mk_node [simp]: "node_file (mk_node i f n t l ln md) = f"
  by (simp add: mk_node_def)

lemma own_add_node:
  "own r S g \<Longrightarrow> node_file n = r \<or> node_file n = [] \<Longrightarrow> own r S (add_node n g)"
  by (auto simp: own_def owned_def add_node_def)

lemma own_add_edge: "own r S g \<Longrightarrow> edge_file e = r \<Longrightarrow> own r S (add_edge e g)"
  by (auto simp: own_def owned_def add_edge_def)

lemma own_fold:
  "(\<And>x g. own r S g \<Longrightarrow> own r S (f x g)) \<Longrightarrow> own r S g \<Longrightarrow> own r S (fold f xs g)"
  by (induction xs arbitrary: g) auto

lemma own_add_file_node: "owned S g \<Longrightarrow> r \<in> S \<Longrightarrow> own r S (add_file_node fpath r lang g)"
  by (auto simp: own_def owned_def add_file_node_def add_node_def mk_node_def)

lemma own_owned: "own r S g \<Longrightarrow> owned S g"
  by (simp add: own_def)

lemma own_emit_out: "own r S g \<Longrightarrow> own r S (emit_out p nt et lang r ln name g)"
  unfolding emit_out_def by (intro own_add_edge own_add_node) simp_all

lemma own_emit_in: "own r S g \<Longrightarrow> own r S (emit_in p nt et lang r ln name g)"
  unfolding emit_in_def by (intro own_add_edge own_add_node) simp_all

lemma own_env_use: "own r S g \<Longrightarrow> own r S (env_use r ln var g)"
  unfolding env_use_def by (intro own_add_edge own_add_node) simp_all

lemma own_env_uses_of: "own r S g \<Longrightarrow> own r S (env_uses_of lib pats r ln line g)"
  unfolding env_uses_of_def by (intro own_fold own_env_use)

lemma own_js_imports: "own r S g \<Longrightarrow> own r S (js_imports lib r ln line g)"
  unfolding js_imports_def by (intro own_fold own_add_edge) simp_all

lemma own_js_export: "own r S g \<Longrightarrow> own r S (js_export lang r ln name g)"
  unfolding js_export_def by (auto intro!: own_add_edge own_add_node)

lemma own_js_exports: "own r S g \<Longrightarrow> own r S (js_exports lib lang r ln line g)"
  unfolding js_exports_def by (intro own_fold own_js_export)

lemma own_js_route: "own r S g \<Longrightarrow> own r S (js_route lang r ln m g)"
  unfolding js_route_def Let_def by (intro own_add_edge own_add_node) simp_all

lemma own_js_routes: "own r S g \<Longrightarrow> own r S (js_routes lib lang r ln line g)"
  unfolding js_routes_def by (intro own_fold own_js_route)

lemma own_js_api_call: "own r S g \<Longrightarrow> own r S (js_api_call d r ln m g)"
  unfolding js_api_call_def Let_def by (intro own_add_edge) simp_all

lemma own_js_api_calls: "own r S g \<Longrightarrow> own r S (js_api_calls lib r ln line g)"
  unfolding js_api_calls_def by (intro own_fold own_js_api_call)

lemma own_js_line: "own r S g \<Longrightarrow> own r S (js_line lib lang r ln line g)"
  unfolding js_line_def
  by (intro own_env_uses_of own_fold own_emit_in own_emit_out own_js_api_calls
        own_js_routes own_js_exports own_js_imports)

lemma own_py_imports: "own r S g \<Longrightarrow> own r S (py_imports lib r ln line g)"
  unfolding py_imports_def
  by (rule own_fold) (auto split: option.splits intro!: own_add_edge)

lemma own_definition_of: "own r S g \<Longrightarrow> own r S (definition_of p nt lang r ln name g)"
  unfolding definition_of_def by (intro own_add_edge own_add_node) simp_all

lemma own_py_definitions: "own r S g \<Longrightarrow> own r S (py_definitions lib r ln line g)"
  unfolding py_definitions_def Let_def
  by (auto split: option.splits intro!: own_definition_of)

lemma own_serial_read: "own r S g \<Longrightarrow> own r S (serial_read lang r ln g)"
  unfolding serial_read_def by (intro own_add_edge own_add_node) simp_all

lemma own_serial_write: "own r S g \<Longrightarrow> own r S (serial_write lang r ln g)"
  unfolding serial_write_def by (intro own_add_edge own_add_node) simp_all

lemma own_py_serial: "own r S g \<Longrightarrow> own r S (py_serial lib r ln line g)"
  unfolding py_serial_def Let_def
  by (auto intro!: own_serial_read own_serial_write)

lemma own_py_http_calls: "own r S g \<Longrightarrow> own r S (py_http_calls lib r ln line g)"
  unfolding py_http_calls_def by (intro own_fold own_add_edge) simp_all

lemma own_py_route: "own r S g \<Longrightarrow> own r S (py_route r ln m g)"
  unfolding py_route_def Let_def by (intro own_add_edge own_add_node) simp_all

lemma own_py_routes: "own r S g \<Longrightarrow> own r S (py_routes lib r ln line g)"
  unfolding py_routes_def by (intro own_fold own_py_route)

lemma own_py_line: "own r S g \<Longrightarrow> own r S (py_line lib r ln line g)"
  unfolding py_line_def
  by (intro own_env_uses_of own_py_routes own_py_http_calls own_py_serial
        own_fold own_emit_in own_emit_out own_py_definitions own_py_imports)

lemma own_cpp_include: "own r S g \<Longrightarrow> own r S (cpp_include lib r ln line g)"
  unfolding cpp_include_def
  by (auto split: option.splits intro!: own_add_edge own_add_node)

lemma own_cpp_function: "own r S g \<Longrightarrow> own r S (cpp_function lib lang r ln line g)"
  unfolding cpp_function_def
  by (auto split: option.splits intro!: own_definition_of)

lemma own_cpp_serial: "own r S g \<Longrightarrow> own r S (cpp_serial lib lang r ln line g)"
  unfolding cpp_serial_def Let_def
  by (auto intro!: own_serial_read own_serial_write)

lemma own_cpp_http: "own r S g \<Longrightarrow> own r S (cpp_http lib r ln line g)"
  unfolding cpp_http_def by (intro own_fold own_add_edge) simp_all

lemma own_cpp_line: "own r S g \<Longrightarrow> own r S (cpp_line lib lang r ln line g)"
  unfolding cpp_line_def
  by (intro own_cpp_http own_cpp_serial own_fold own_emit_in own_emit_out
        own_cpp_function own_cpp_include)

lemma own_env_line: "own r S g \<Longrightarrow> own r S (env_line lib r ln line g)"
  unfolding env_line_def
  by (auto split: option.splits intro!: own_add_edge own_add_node)

lemma own_for_lines:
  assumes "\<And>ln line g. own r S g \<Longrightarrow> own r S (body ln line g)" "own r S g"
  shows "own r S (for_lines prefix content body g)"
  unfolding for_lines_def
  by (rule own_fold) (auto intro: assms)

lemma owned_parse_javascript:
  "owned S g \<Longrightarrow> r \<in> S \<Longrightarrow> owned S (parse_javascript lib fpath content r g)"
  unfolding parse_javascript_def Let_def
  by (rule own_owned[of r S]) (intro own_for_lines own_js_line own_add_file_node)

lemma owned_parse_python:
  "owned S g \<Longrightarrow> r \<in> S \<Longrightarrow> owned S (parse_python lib fpath content r g)"
  unfolding parse_python_def
  by (rule own_owned[of r S]) (intro own_for_lines own_py_line own_add_file_node)

lemma owned_parse_cpp_arduino:
  "owned S g \<Longrightarrow> r \<in> S \<Longrightarrow> owned S (parse_cpp_arduino lib fpath content r g)"
  unfolding parse_cpp_arduino_def Let_def
  by (rule own_owned[of r S]) (intro own_for_lines own_cpp_line own_add_file_node)

lemma owned_parse_env_file:
  "owned S g \<Longrightarrow> r \<in> S \<Longrightarrow> owned S (parse_env_file lib fpath content r g)"
  unfolding parse_env_file_def
  by (rule own_owned[of r S]) (intro own_for_lines own_env_line own_add_file_node)

lemma own_pkg_dependency: "own r S g \<Longrightarrow> own r S (pkg_dependency r dt name g)"
  unfolding pkg_dependency_def by (intro own_add_edge own_add_node) simp_all

lemma own_pkg_script: "own r S g \<Longrightarrow> own r S (pkg_script r sc g)"
  unfolding pkg_script_def by (rule own_add_node) simp_all

lemma own_pkg_dependencies:
  "own r S g \<Longrightarrow> pkg_dependencies r dt deps g = Inr g' \<Longrightarrow> own r S g'"
  by (auto simp: pkg_dependencies_def split: iter_outcome.splits
           intro!: own_fold own_pkg_dependency)

lemma own_parse_config_files:
  assumes "owned S g" "parse_config_files lib fpath content r g = Inr g'" "r \<in> S"
  shows "own r S g'"
proof -
  have g0: "own r S (add_file_node fpath r ''config'' g)"
    by (rule own_add_file_node[OF assms(1,3)])
  show ?thesis
  proof (cases "path_name fpath = ''package.json''")
    case False
    with assms(2) g0 show ?thesis
      by (simp add: parse_config_files_def Let_def)
  next
    case True
    show ?thesis
    proof (cases "json_loads lib content")
      case JSONDecodeError
      with True assms(2) g0 show ?thesis
        by (simp add: parse_config_files_def Let_def)
    next
      case JsonOtherError
      with True assms(2) show ?thesis
        by (simp add: parse_config_files_def Let_def)
    next
      case (JsonValue pkg)
      show ?thesis
      proof (cases pkg)
        case NotADict
        with JsonValue True assms(2) show ?thesis
          by (simp add: parse_config_files_def Let_def)
      next
        case (PkgDict deps dev scripts)
        with JsonValue True assms(2) obtain g1 g2 scs where
          g1: "pkg_dependencies r ''dependencies'' deps (add_file_node fpath r ''config'' g) = Inr g1"
          and g2: "pkg_dependencies r ''devDependencies'' dev g1 = Inr g2"
          and sc: "scripts = Items scs" and g': "g' = fold (pkg_script r) scs g2"
          by (auto simp: parse_config_files_def Let_def split: sum.splits items_outcome.splits)
        have "own r S g1" by (rule own_pkg_dependencies[OF g0 g1])
        then have "own r S g2" by (rule own_pkg_dependencies[OF _ g2])
        then show ?thesis
          unfolding g' by (intro own_fold own_pkg_script)
      qed
    qed
  qed
qed

lemma owned_parse_file:
  assumes "owned S g" "parse_file lib fpath content r g = Inr g'" "r \<in> S"
  shows "owned S g'"
proof -
  consider "g' = parse_env_file lib fpath content r g"
    | "g' = parse_javascript lib fpath content r g"
    | "g' = parse_python lib fpath content r g"
    | "g' = parse_cpp_arduino lib fpath content r g"
    | "parse_config_files lib fpath content r g = Inr g'"
    | "g' = g"
    using assms(2) unfolding parse_file_def Let_def
    by (metis sum.inject(2))
  then show ?thesis
  proof cases
    case 5
    then show ?thesis
      using own_parse_config_files[OF assms(1) _ assms(3)] own_owned by blast
  qed (simp_all add: assms(1,3) owned_parse_env_file owned_parse_javascript
         owned_parse_python owned_parse_cpp_arduino)
qed

lemma owned_process_file:
  "owned S g \<Longrightarrow> rel_path (fst f) \<in> S \<Longrightarrow> process_file lib f g = Inr g' \<Longrightarrow> owned S g'"
  by (auto simp: process_file_def split: sum.splits if_splits dest: owned_parse_file)

lemma owned_process_files:
  "owned S g \<Longrightarrow> rel_path ` fst ` set fs \<subseteq> S \<Longrightarrow> process_files lib fs g = Inr g' \<Longrightarrow>
   owned S g'"
proof (induction fs arbitrary: g)
  case Nil
  then show ?case by simp
next
  case (Cons f fs)
  from Cons.prems(3) obtain g1 where g1: "process_file lib f g = Inr g1"
    and rest: "process_files lib fs g1 = Inr g'"
    by (auto split: sum.splits)
  have "owned S g1"
    using Cons.prems(1,2) g1 by (auto intro: owned_process_file)
  then show ?case
    using Cons.prems(2) rest by (auto intro: Cons.IH)
qed

lemma process_files_append:
  "process_files lib (xs @ ys) g =
     (case process_files lib xs g of Inl e \<Rightarrow> Inl e | Inr g' \<Rightarrow> process_files lib ys g')"
  by (induction xs arbitrary: g) (auto split: sum.splits)

lemma parse_file_other_config:
  assumes "lower (path_suffix p) \<in> {''.json'', ''.yaml'', ''.yml'', ''.toml'', ''.ini''}"
    and "path_name p \<noteq> ''package.json''" and "\<not> startswith (path_name p) ''.env''"
  shows "parse_file lib p content r g = Inr g"
  using assms by (auto simp: parse_file_def Let_def)

lemma process_file_other_config:
  assumes "lower (path_suffix (fst f)) \<in> {''.json'', ''.yaml'', ''.yml'', ''.toml'', ''.ini''}"
    and "path_name (fst f) \<noteq> ''package.json''" and "\<not> startswith (path_name (fst f)) ''.env''"
  shows "process_file lib f g =
           (case read_file_safe (snd f) of Inl e \<Rightarrow> Inl e | Inr content \<Rightarrow> Inr g)"
  by (simp add: process_file_def parse_file_other_config[OF assms] split: sum.splits)

lemma accepted_other_config:
  assumes "lower (path_suffix p) \<in> {''.json'', ''.yaml'', ''.yml'', ''.toml'', ''.ini''}"
  shows "accepted (path_name p)"
  using assms by (auto simp: accepted_def path_suffix_def LANGUAGE_MAP_def)

lemma str_join_nonempty: "ps \<noteq> [] \<Longrightarrow> last ps \<noteq> [] \<Longrightarrow> str_join sep ps \<noteq> []"
  by (induction sep ps rule: str_join.induct) auto

lemma rel_path_nonempty:
  assumes "lower (path_suffix p) \<in> {''.json'', ''.yaml'', ''.yml'', ''.toml'', ''.ini''}"
  shows "rel_path p \<noteq> []"
proof -
  from assms have "path_suffix p \<noteq> []" by (auto simp: lower_def)
  then have "path_name p \<noteq> []"
    by (auto simp: path_suffix_def suffix_of_name_def)
  then have "p \<noteq> []" "last p \<noteq> []"
    by (auto simp: path_name_def split: if_splits)
  then show ?thesis
    unfolding rel_path_def by (rule str_join_nonempty)
qed

lemma stats_files_without:
  assumes "\<forall>kn\<in>set (nodes g). node_file (snd kn) \<noteq> r"
  shows "stats_files g = card ((\<lambda>kn. node_file (snd kn)) ` set (nodes g) - {[], r})"
proof -
  have "set (filter (\<lambda>f. f \<noteq> []) (map (\<lambda>kn. node_file (snd kn)) (nodes g)))
        = (\<lambda>kn. node_file (snd kn)) ` set (nodes g) - {[], r}"
    using assms by auto
  then show ?thesis by (simp only: stats_files_def)
qed

lemma detect_bridges_nodes_edges:
  "nodes (detect_bridges iter g) = nodes g" "edges (detect_bridges iter g) = edges g"
  by (simp_all add: detect_bridges_eq)

text \<open>
  Claim C10. Let \<open>f\<close> be a discovered file whose lowered suffix is one of \<open>.json\<close>, \<open>.yaml\<close>,
  \<open>.yml\<close>, \<open>.toml\<close>, \<open>.ini\<close>, whose name is not \<open>package.json\<close> and does not start with
  \<open>.env\<close>, in a project for which \<open>build_graph\<close> returns a graph \<open>g\<close>. Then discovery
  accepts the name of \<open>f\<close>; the loop body of \<open>build_graph\<close> for \<open>f\<close> returns every graph as it
  got it; the pipeline run over the other discovered files alone returns the same \<open>g\<close>;
  and, when no other discovered file has the relative path of \<open>f\<close>, no node and no edge
  of \<open>g\<close> carries that path, so that \<open>stats()['files']\<close> counts the same with the path
  excluded.
\<close>

theorem other_config_file_is_ignored:
  assumes "discover_files project_root = fs1 @ f # fs2"
    and "lower (path_suffix (fst f)) \<in> {''.json'', ''.yaml'', ''.yml'', ''.toml'', ''.ini''}"
    and "path_name (fst f) \<noteq> ''package.json''"
    and "\<not> startswith (path_name (fst f)) ''.env''"
    and "build_graph lib iter project_root = Inr g"
  shows "accepted (path_name (fst f))
       \<and> (\<forall>g0. process_file lib f g0 = Inr g0)
       \<and> (case process_files lib (fs1 @ fs2) empty_graph of
             Inl e \<Rightarrow> Inl e | Inr g' \<Rightarrow> Inr (detect_bridges iter g')) = Inr g
       \<and> (rel_path (fst f) \<notin> rel_path ` fst ` set (fs1 @ fs2) \<longrightarrow>
            (\<forall>kn\<in>set (nodes g). node_file (snd kn) \<noteq> rel_path (fst f))
          \<and> (\<forall>e\<in>set (edges g). edge_file e \<noteq> rel_path (fst f))
          \<and> stats_files g =
              card ((\<lambda>kn. node_file (snd kn)) ` set (nodes g) - {[], rel_path (fst f)}))"
proof -
  note skip = process_file_other_config[OF assms(2,3,4)]
  from assms(5) obtain g' where
    all: "process_files lib (fs1 @ f # fs2) empty_graph = Inr g'" and g: "g = detect_bridges iter g'"
    by (auto simp: build_graph_def assms(1) split: sum.splits)
  from all obtain g1 g2 where g1: "process_files lib fs1 empty_graph = Inr g1"
    and g2: "process_file lib f g1 = Inr g2" and rest: "process_files lib fs2 g2 = Inr g'"
    by (auto simp: process_files_append split: sum.splits)
  from g2 obtain content where read: "read_file_safe (snd f) = Inr content"
    by (auto simp: skip[of lib g1] split: sum.splits)
  have same: "process_file lib f g0 = Inr g0" for g0
    by (simp add: skip read)
  with g2 have "g2 = g1" by simp
  with g1 rest have others: "process_files lib (fs1 @ fs2) empty_graph = Inr g'"
    by (simp add: process_files_append)
  have frame: "rel_path (fst f) \<notin> rel_path ` fst ` set (fs1 @ fs2) \<longrightarrow>
            (\<forall>kn\<in>set (nodes g). node_file (snd kn) \<noteq> rel_path (fst f))
          \<and> (\<forall>e\<in>set (edges g). edge_file e \<noteq> rel_path (fst f))
          \<and> stats_files g =
              card ((\<lambda>kn. node_file (snd kn)) ` set (nodes g) - {[], rel_path (fst f)})"
  proof
    assume fresh: "rel_path (fst f) \<notin> rel_path ` fst ` set (fs1 @ fs2)"
    have "owned (rel_path ` fst ` set (fs1 @ fs2)) empty_graph"
      by (simp add: owned_def empty_graph_def)
    then have "owned (rel_path ` fst ` set (fs1 @ fs2)) g'"
      using others by (rule owned_process_files[OF _ subset_refl])
    then have o: "owned (rel_path ` fst ` set (fs1 @ fs2)) g"
      by (simp add: owned_def g detect_bridges_nodes_edges)
    have ne: "rel_path (fst f) \<noteq> []"
      by (rule rel_path_nonempty[OF assms(2)])
    have n: "\<forall>kn\<in>set (nodes g). node_file (snd kn) \<noteq> rel_path (fst f)"
      using o fresh ne unfolding owned_def by metis
    have e: "\<forall>e\<in>set (edges g). edge_file e \<noteq> rel_path (fst f)"
      using o fresh unfolding owned_def by metis
    from n e stats_files_without[OF n]
    show "(\<forall>kn\<in>set (nodes g). node_file (snd kn) \<noteq> rel_path (fst f))
          \<and> (\<forall>e\<in>set (edges g). edge_file e \<noteq> rel_path (fst f))
          \<and> stats_files g =
              card ((\<lambda>kn. node_file (snd kn)) ` set (nodes g) - {[], rel_path (fst f)})"
      by blast
  qed
  show ?thesis
    using accepted_other_config[OF assms(2)] same frame by (simp add: others g)
qed

lemma config_project_discovered:
  "discover_files config_project =
     [([''srv.js''], utf8_text [''const db = process.env.DATABASE_URL;'',
                                ''const port = process.env.PORT;'']),
      ([''tsconfig.json''], utf8_text [''{}''])]"
  by (simp add: discover_files_def config_project_def sorted_paths_def accepted_def startswith_def
        suffix_of_name_def lower_def lower_char_def upper_letters_def lower_letters_def latin1_upper_def latin1_lower_def
        LANGUAGE_MAP_def)

lemma config_project_built:
  "process_files demo_lib (discover_files config_project) empty_graph = Inr env_scenario"
  by (simp add: config_project_discovered pipeline_defs js_pipeline_defs env_scenario_def)

lemma config_project_graph: "build_graph demo_lib remdups config_project = Inr env_result"
  by (simp add: build_graph_def config_project_built env_scenario_detected)

theorem other_config_file_is_ignored_witness:
  "discover_files config_project =
     [([''srv.js''], utf8_text [''const db = process.env.DATABASE_URL;'',
                                ''const port = process.env.PORT;''])]
     @ ([''tsconfig.json''], utf8_text [''{}'']) # []
   \<and> build_graph demo_lib remdups config_project = Inr env_result
   \<and> accepted ''tsconfig.json''
   \<and> process_files demo_lib
        [([''srv.js''], utf8_text [''const db = process.env.DATABASE_URL;'',
                                   ''const port = process.env.PORT;''])] empty_graph
       = Inr env_scenario
   \<and> ''tsconfig.json'' \<notin> (\<lambda>kn. node_file (snd kn)) ` set (nodes env_result)
   \<and> ''tsconfig.json'' \<notin> edge_file ` set (edges env_result)"
proof -
  let ?srv = "([''srv.js''], utf8_text [''const db = process.env.DATABASE_URL;'',
                                ''const port = process.env.PORT;''])"
  let ?cfg = "([''tsconfig.json''], utf8_text [''{}''])"
  have d: "discover_files config_project = [?srv] @ ?cfg # []"
    by (simp add: config_project_discovered)
  have s: "lower (path_suffix (fst ?cfg)) \<in> {''.json'', ''.yaml'', ''.yml'', ''.toml'', ''.ini''}"
    by (simp add: path_suffix_def path_name_def suffix_of_name_def lower_def lower_char_def
          upper_letters_def lower_letters_def latin1_upper_def latin1_lower_def)
  have n: "path_name (fst ?cfg) \<noteq> ''package.json''" "\<not> startswith (path_name (fst ?cfg)) ''.env''"
    by (simp_all add: path_name_def startswith_def)
  have fresh: "rel_path (fst ?cfg) \<notin> rel_path ` fst ` set ([?srv] @ [])"
    by (simp add: rel_path_def)
  have r: "rel_path (fst ?cfg) = ''tsconfig.json''" "path_name (fst ?cfg) = ''tsconfig.json''"
    by (simp_all add: rel_path_def path_name_def)
  have p: "process_files demo_lib [?srv] empty_graph = Inr env_scenario"
    using env_scenario_built by (simp only: env_project_discovered)
  from other_config_file_is_ignored[OF d s n config_project_graph] fresh
  have "accepted (path_name (fst ?cfg))
        \<and> (\<forall>kn\<in>set (nodes env_result). node_file (snd kn) \<noteq> rel_path (fst ?cfg))
        \<and> (\<forall>e\<in>set (edges env_result). edge_file e \<noteq> rel_path (fst ?cfg))"
    by blast
  then have "accepted ''tsconfig.json''
        \<and> ''tsconfig.json'' \<notin> (\<lambda>kn. node_file (snd kn)) ` set (nodes env_result)
        \<and> ''tsconfig.json'' \<notin> edge_file ` set (edges env_result)"
    unfolding r by force
  then show ?thesis
    using d config_project_graph p by blast
qed

section \<open>Reading files\<close>

lemma read_file_safe_first:
  "read_file_safe r =
     (case dropWhile (\<lambda>out. out = DecodeFailure) (map r [UTF8, Latin1, ASCII]) of
        [] \<Rightarrow> Inr []
      | Text s # rest \<Rightarrow> Inr s
      | DecodeFailure # rest \<Rightarrow> Inr []
      | OSFailure # rest \<Rightarrow> Inl OSError)"
  by (cases "r UTF8"; cases "r Latin1"; cases "r ASCII") (simp_all add: read_file_safe_def)

lemma read_file_safe_returns:
  assumes "\<forall>enc. r enc \<noteq> OSFailure"
  shows "\<exists>c. read_file_safe r = Inr c"
  using assms[rule_format, of UTF8] assms[rule_format, of Latin1] assms[rule_format, of ASCII]
  by (cases "r UTF8"; cases "r Latin1"; cases "r ASCII") (simp_all add: read_file_safe_def)

lemma pkg_dependencies_returns:
  "deps \<noteq> NotIterable \<Longrightarrow> \<exists>g'. pkg_dependencies r dt deps g = Inr g'"
  by (cases deps) (simp_all add: pkg_dependencies_def)

lemma parse_config_files_returns:
  assumes "well_shaped (json_loads lib c)"
  shows "\<exists>g'. parse_config_files lib p c r g = Inr g'"
proof (cases "json_loads lib c")
  case JSONDecodeError
  then show ?thesis by (simp add: parse_config_files_def Let_def)
next
  case JsonOtherError
  with assms show ?thesis by (simp add: well_shaped_def)
next
  case (JsonValue pkg)
  show ?thesis
  proof (cases pkg)
    case NotADict
    with JsonValue assms show ?thesis by (simp add: well_shaped_def)
  next
    case (PkgDict deps dev scripts)
    with JsonValue assms have ok: "deps \<noteq> NotIterable" "dev \<noteq> NotIterable" "scripts \<noteq> NoItems"
      by (simp_all add: well_shaped_def)
    from ok(1) obtain g1 where g1:
      "pkg_dependencies r ''dependencies'' deps (add_file_node p r ''config'' g) = Inr g1"
      using pkg_dependencies_returns by blast
    from ok(2) obtain g2 where g2: "pkg_dependencies r ''devDependencies'' dev g1 = Inr g2"
      using pkg_dependencies_returns by blast
    from ok(3) obtain scs where scs: "scripts = Items scs" by (cases scripts) auto
    show ?thesis
      by (simp add: parse_config_files_def Let_def JsonValue PkgDict g1 g2 scs)
  qed
qed

lemma parse_file_returns:
  assumes "path_name p = ''package.json'' \<longrightarrow> well_shaped (json_loads lib c)"
  shows "\<exists>g'. parse_file lib p c r g = Inr g'"
  using assms parse_config_files_returns[of lib c p r g]
  by (auto simp: parse_file_def Let_def)

lemma process_file_returns:
  assumes "\<forall>enc. snd f enc \<noteq> OSFailure"
    and "path_name (fst f) = ''package.json'' \<longrightarrow>
         (\<forall>c. read_file_safe (snd f) = Inr c \<longrightarrow> well_shaped (json_loads lib c))"
  shows "\<exists>g'. process_file lib f g = Inr g'"
proof -
  from read_file_safe_returns[OF assms(1)] obtain c where c: "read_file_safe (snd f) = Inr c"
    by blast
  with assms(2) have "path_name (fst f) = ''package.json'' \<longrightarrow> well_shaped (json_loads lib c)"
    by blast
  from parse_file_returns[OF this] show ?thesis
    by (simp add: process_file_def c)
qed

lemma process_files_returns:
  assumes "\<forall>f\<in>set fs. (\<forall>enc. snd f enc \<noteq> OSFailure)
             \<and> (path_name (fst f) = ''package.json'' \<longrightarrow>
                  (\<forall>c. read_file_safe (snd f) = Inr c \<longrightarrow> well_shaped (json_loads lib c)))"
  shows "\<exists>g'. process_files lib fs g = Inr g'"
  using assms
proof (induction fs arbitrary: g)
  case Nil
  then show ?case by simp
next
  case (Cons f fs)
  from Cons.prems obtain g1 where g1: "process_file lib f g = Inr g1"
    using process_file_returns[of f lib g] by auto
  from Cons.IH[of g1] Cons.prems obtain g' where "process_files lib fs g1 = Inr g'"
    by auto
  with g1 show ?case by simp
qed

text \<open>
  Claim C7 as stated fails. \<open>read_file_safe\<close> catches the decoding failures only. For the
  project with the one file \<open>secret.py\<close> whose every read raises another error (a
  \<open>PermissionError\<close>), the error leaves \<open>read_file_safe\<close> and then \<open>build_graph\<close>: no graph
  is returned.
\<close>

theorem locked_project_counterexample:
  "read_file_safe unreadable = Inl OSError
   \<and> build_graph demo_lib remdups locked_project = Inl OSError"
  by (simp add: build_graph_def discover_files_def locked_project_def sorted_paths_def
        accepted_def startswith_def suffix_of_name_def lower_def lower_char_def upper_letters_def
        lower_letters_def latin1_upper_def latin1_lower_def LANGUAGE_MAP_def process_file_def read_file_safe_def unreadable_def)

lemma process_files_reads:
  "process_files lib fs g = Inr g' \<Longrightarrow> f \<in> set fs \<Longrightarrow> \<exists>c. read_file_safe (snd f) = Inr c"
proof (induction fs arbitrary: g)
  case Nil
  then show ?case by simp
next
  case (Cons x fs)
  from Cons.prems(1) obtain g1 where g1: "process_file lib x g = Inr g1"
    and rest: "process_files lib fs g1 = Inr g'"
    by (auto split: sum.splits)
  show ?case
  proof (cases "f = x")
    case True
    with g1 show ?thesis
      by (auto simp: process_file_def split: sum.splits)
  next
    case False
    with Cons.prems(2) have "f \<in> set fs" by simp
    with rest show ?thesis by (rule Cons.IH)
  qed
qed

lemma build_graph_aborts:
  assumes "f \<in> set (discover_files project_root)" and "read_file_safe (snd f) = Inl e"
  shows "\<exists>e'. build_graph lib iter project_root = Inl e'"
proof (cases "process_files lib (discover_files project_root) empty_graph")
  case (Inl e')
  then show ?thesis by (simp add: build_graph_def)
next
  case (Inr g')
  from process_files_reads[OF Inr assms(1)] assms(2) show ?thesis by simp
qed


text \<open>
  Claim C7, amended. \<open>read_file_safe\<close> tries UTF-8, then Latin-1, then ASCII: the first
  outcome that is not a decoding failure decides, a text is returned, and when all three
  are decoding failures the result is the empty content. A file whose content is empty
  leaves the graph as it is. \<open>build_graph\<close> returns a graph whenever no read of a
  discovered file raises another error and the content of every discovered
  \<open>package.json\<close> either is not JSON or is an object with iterable \<open>dependencies\<close> and
  \<open>devDependencies\<close> and a \<open>scripts\<close> with items; and it returns no graph when the read
  of some discovered file raises another error.
\<close>

theorem read_file_safe_fallback:
  "read_file_safe r =
     (case dropWhile (\<lambda>out. out = DecodeFailure) (map r [UTF8, Latin1, ASCII]) of
        [] \<Rightarrow> Inr []
      | Text s # rest \<Rightarrow> Inr s
      | DecodeFailure # rest \<Rightarrow> Inr []
      | OSFailure # rest \<Rightarrow> Inl OSError)
   \<and> (read_file_safe (snd f) = Inr [] \<longrightarrow> process_file lib f g = Inr g)
   \<and> ((\<forall>f\<in>set (discover_files project_root).
          (\<forall>enc. snd f enc \<noteq> OSFailure)
          \<and> (path_name (fst f) = ''package.json'' \<longrightarrow>
               (\<forall>c. read_file_safe (snd f) = Inr c \<longrightarrow> well_shaped (json_loads lib c))))
        \<longrightarrow> (\<exists>g'. build_graph lib iter project_root = Inr g'))
   \<and> ((\<exists>f\<in>set (discover_files project_root). \<exists>e. read_file_safe (snd f) = Inl e)
        \<longrightarrow> (\<exists>e. build_graph lib iter project_root = Inl e))"
proof -
  have b: "read_file_safe (snd f) = Inr [] \<longrightarrow> process_file lib f g = Inr g"
    by (simp add: process_file_def)
  have c: "(\<forall>f\<in>set (discover_files project_root).
          (\<forall>enc. snd f enc \<noteq> OSFailure)
          \<and> (path_name (fst f) = ''package.json'' \<longrightarrow>
               (\<forall>c. read_file_safe (snd f) = Inr c \<longrightarrow> well_shaped (json_loads lib c))))
        \<longrightarrow> (\<exists>g'. build_graph lib iter project_root = Inr g')"
  proof
    assume "\<forall>f\<in>set (discover_files project_root).
          (\<forall>enc. snd f enc \<noteq> OSFailure)
          \<and> (path_name (fst f) = ''package.json'' \<longrightarrow>
               (\<forall>c. read_file_safe (snd f) = Inr c \<longrightarrow> well_shaped (json_loads lib c)))"
    from process_files_returns[OF this, of empty_graph]
    show "\<exists>g'. build_graph lib iter project_root = Inr g'"
      by (auto simp: build_graph_def)
  qed
  have d: "(\<exists>f\<in>set (discover_files project_root). \<exists>e. read_file_safe (snd f) = Inl e)
        \<longrightarrow> (\<exists>e. build_graph lib iter project_root = Inl e)"
    using build_graph_aborts by blast
  from read_file_safe_first[of r] b c d show ?thesis by blast
qed

lemma locked_project_discovered:
  "discover_files locked_project = [([''secret.py''], unreadable)]"
  by (simp add: discover_files_def locked_project_def sorted_paths_def
        accepted_def startswith_def suffix_of_name_def lower_def lower_char_def upper_letters_def
        lower_letters_def latin1_upper_def latin1_lower_def LANGUAGE_MAP_def)

theorem read_file_safe_fallback_witness:
  "read_file_safe undecodable = Inr []
   \<and> process_file demo_lib ([''notes.py''], undecodable) env_scenario = Inr env_scenario
   \<and> list_all (\<lambda>f. (\<forall>enc. snd f enc \<noteq> OSFailure) \<and> path_name (fst f) \<noteq> ''package.json'')
        (discover_files env_project)
   \<and> (\<exists>g'. build_graph demo_lib remdups env_project = Inr g')
   \<and> (\<exists>f\<in>set (discover_files locked_project). \<exists>e. read_file_safe (snd f) = Inl e)
   \<and> (\<exists>e. build_graph demo_lib remdups locked_project = Inl e)"
proof -
  have r: "read_file_safe undecodable = Inr []"
    using read_file_safe_fallback[of undecodable "([], undecodable)" demo_lib empty_graph "[]" remdups]
    by (simp add: undecodable_def)
  have h: "list_all (\<lambda>f. (\<forall>enc. snd f enc \<noteq> OSFailure) \<and> path_name (fst f) \<noteq> ''package.json'')
        (discover_files env_project)"
    by (simp add: env_project_discovered utf8_text_def path_name_def)
  have l: "\<exists>f\<in>set (discover_files locked_project). \<exists>e. read_file_safe (snd f) = Inl e"
    by (simp add: locked_project_discovered read_file_safe_def unreadable_def)
  from read_file_safe_fallback[of undecodable "([''notes.py''], undecodable)" demo_lib env_scenario
      env_project remdups] r h
  have 1: "process_file demo_lib ([''notes.py''], undecodable) env_scenario = Inr env_scenario"
    and 2: "\<exists>g'. build_graph demo_lib remdups env_project = Inr g'"
    by (simp_all add: list_all_iff)
  from read_file_safe_fallback[of undecodable "([], undecodable)" demo_lib empty_graph
      locked_project remdups] l
  have 3: "\<exists>e. build_graph demo_lib remdups locked_project = Inl e"
    by blast
  from r h l 1 2 3 show ?thesis by blast
qed

end
